theory Spec2Isabelle
  imports Complex_Main "HOL-Library.Word"
begin

section \<open>Data model of the loop cost analysis\<close>

text \<open>
  The analysis of \<^verbatim>\<open>lib/Analysis/LoopCostAnalysis.cpp\<close> reads the host's IR. Values are
  compared by address in the source; here every instruction carries the number that
  identifies it, so that equality of two values of the model is the pointer equality of
  the source. A phi node carries no operands: \<^verbatim>\<open>ASTMatch\<close> never looks into one.
\<close>

datatype opcode = GetElementPtr | Br | Load | Store | Add | Mul | ICmp | Ret | Call

datatype val =
    PHINode nat
  | Instruction nat opcode "val list"
  | ConstantInt int
  | GlobalVariable nat
  | Argument nat
  | BasicBlockRef nat

record BasicBlock =
  blockId :: nat
  insts :: "val list"

text \<open>
  A loop of the host's loop forest: its identity, header, latch and exiting block (the
  last two are null in the source when there are several), its member blocks, its
  sub-loops and its canonical induction variable (null when there is none).
\<close>

datatype Loop =
  Loop (loopId: nat) (getHeader: nat) (getLoopLatch: "nat option")
       (getExitingBlock: "nat option") (getBlocks: "BasicBlock list")
       (getSubLoops: "Loop list") (getCanonicalInductionVariable: "val option")

text \<open>
  The symbolic evaluator is an external collaborator; the analysis uses three of its
  answers: whether a value is symbolically representable, the difference of two values'
  expressions when \<^verbatim>\<open>dyn_cast<SCEVConstant>\<close> of it succeeds, and the small constant
  trip count of a loop (0 when unknown).
\<close>

record ScalarEvolution =
  isSCEVable :: "val \<Rightarrow> bool"
  getMinusSCEVConstant :: "val \<Rightarrow> val \<Rightarrow> 64 word option"
  getSmallConstantTripCount :: "Loop \<Rightarrow> 32 word"

datatype Order = COLUMNMAJOR | ROWMAJOR

text \<open>
  The fields of \<^verbatim>\<open>class LoopCost\<close>. Costs are doubles in the source; the model computes
  them in exact rational arithmetic.
\<close>

record LoopCost =
  AccessOrder :: Order
  LineSize :: "32 word"
  LoopTripCounts :: "(nat \<times> 32 word) list"
  ReferenceGroups :: "val list"
  LoopCosts :: "nat \<rightharpoonup> rat"

text \<open>What the source does where it leaves defined behaviour.\<close>

datatype fault = NullDereference | OutOfBounds | AssertionFailure

text \<open>The constructor \<^verbatim>\<open>LoopCost(ScalarEvolution *)\<close>: line size 4, row-major, empty tables.\<close>

definition newLoopCost :: LoopCost where
  "newLoopCost = \<lparr>AccessOrder = ROWMAJOR, LineSize = 4, LoopTripCounts = [],
                  ReferenceGroups = [], LoopCosts = Map.empty\<rparr>"

section \<open>Trip counts\<close>

definition STATIC_TRIP_COUNT :: "32 word" where
  "STATIC_TRIP_COUNT = 1000"

text \<open>
  The assignment \<^verbatim>\<open>(*li).second = v\<close> followed by the test
  \<^verbatim>\<open>if ((*li).second == 0) (*li).second = STATIC_TRIP_COUNT\<close>.
\<close>

definition orStatic :: "32 word \<Rightarrow> 32 word" where
  "orStatic v = (if v = 0 then STATIC_TRIP_COUNT else v)"

definition resetTripCount :: "(nat \<times> 32 word) list \<Rightarrow> nat \<Rightarrow> 32 word \<Rightarrow> (nat \<times> 32 word) list" where
  "resetTripCount tcs li v = tcs[li := (fst (tcs ! li), orStatic v)]"

text \<open>
  The normalisation loop of \<^verbatim>\<open>setTripCounts\<close>, from iterator position \<open>li\<close> on. The
  vector is updated in place, so the entry before \<open>li\<close> is read after its own reset.
  At \<^verbatim>\<open>begin()\<close> the source reads the entry after \<open>li\<close> without asking whether there is one.
\<close>

function normalizeTripCounts :: "nat \<Rightarrow> (nat \<times> 32 word) list \<Rightarrow> fault + (nat \<times> 32 word) list" where
  "normalizeTripCounts li tcs =
     (if li < length tcs then
        if snd (tcs ! li) \<noteq> 0 then normalizeTripCounts (Suc li) tcs
        else if li = 0 then
          (if Suc li < length tcs
           then normalizeTripCounts (Suc li) (resetTripCount tcs li (snd (tcs ! Suc li)))
           else Inl OutOfBounds)
        else if li = length tcs - 1 then
          normalizeTripCounts (Suc li) (resetTripCount tcs li (snd (tcs ! (li - 1))))
        else
          normalizeTripCounts (Suc li)
            (resetTripCount tcs li ((snd (tcs ! (li - 1)) + snd (tcs ! Suc li)) div 2))
      else Inr tcs)"
  by pat_completeness auto
termination
  by (relation "measure (\<lambda>(li, tcs). length tcs - li)") (auto simp: resetTripCount_def)

declare normalizeTripCounts.simps [simp del]

text \<open>
  For the proofs: the value the loop assigns at position \<open>li\<close> of the current vector,
  and one iteration of the loop as a function of the vector.
\<close>

definition neighbourValue :: "(nat \<times> 32 word) list \<Rightarrow> nat \<Rightarrow> 32 word" where
  "neighbourValue tcs li =
     (if li = 0 then snd (tcs ! Suc li)
      else if li = length tcs - 1 then snd (tcs ! (li - 1))
      else (snd (tcs ! (li - 1)) + snd (tcs ! Suc li)) div 2)"

definition normalizeStep :: "(nat \<times> 32 word) list \<Rightarrow> nat \<Rightarrow> (nat \<times> 32 word) list" where
  "normalizeStep tcs li =
     (if snd (tcs ! li) \<noteq> 0 then tcs else resetTripCount tcs li (neighbourValue tcs li))"

text \<open>
  \<^verbatim>\<open>setTripCounts\<close> pushes one entry for each loop of the nest onto the field, which is
  not emptied first, and normalises the whole field from its beginning.
\<close>

definition setTripCounts :: "ScalarEvolution \<Rightarrow> LoopCost \<Rightarrow> Loop list \<Rightarrow> fault + LoopCost" where
  "setTripCounts se lc LN =
     (case normalizeTripCounts 0
             (LoopTripCounts lc @ map (\<lambda>L. (loopId L, getSmallConstantTripCount se L)) LN) of
        Inl f \<Rightarrow> Inl f
      | Inr tcs \<Rightarrow> Inr (lc\<lparr>LoopTripCounts := tcs\<rparr>))"

section \<open>Perfect loop nests\<close>

definition IsRotatedLoop :: "Loop \<Rightarrow> bool" where
  "IsRotatedLoop L = (Some (getHeader L) \<noteq> getExitingBlock L)"

text \<open>\<^verbatim>\<open>Loop::contains(BasicBlock *)\<close>: the block is one of the loop's member blocks.\<close>

definition contains :: "Loop \<Rightarrow> BasicBlock \<Rightarrow> bool" where
  "contains L bb = (blockId bb \<in> blockId ` set (getBlocks L))"

text \<open>
  The test for an "empty" block: \<^verbatim>\<open>(*bb)->size() == 1\<close> and its terminator is an
  unconditional branch, which is a branch instruction with a single operand.
\<close>

definition isUnconditionalBranch :: "val \<Rightarrow> bool" where
  "isUnconditionalBranch v =
     (case v of Instruction _ Br ops \<Rightarrow> length ops = 1 | _ \<Rightarrow> False)"

definition isEmptyBlock :: "BasicBlock \<Rightarrow> bool" where
  "isEmptyBlock bb = (length (insts bb) = 1 \<and> isUnconditionalBranch (last (insts bb)))"

definition isHeaderOrLatch :: "Loop \<Rightarrow> BasicBlock \<Rightarrow> bool" where
  "isHeaderOrLatch L bb = (blockId bb = getHeader L \<or> Some (blockId bb) = getLoopLatch L)"

text \<open>The source asserts that the loop has a single sub-loop before it takes the first.\<close>

definition BlocksPerfectlyNestedUnder :: "Loop \<Rightarrow> fault + bool" where
  "BlocksPerfectlyNestedUnder L =
     (case getSubLoops L of
        [Subloop] \<Rightarrow>
          Inr (list_all (\<lambda>bb. isHeaderOrLatch L bb \<or> contains Subloop bb \<or> isEmptyBlock bb)
                 (getBlocks L))
      | _ \<Rightarrow> Inl AssertionFailure)"

text \<open>The body of the source function is \<^verbatim>\<open>return true\<close> under a TODO comment.\<close>

definition hasSimpleHeaderLatch :: "Loop \<Rightarrow> bool" where
  "hasSimpleHeaderLatch L = True"

text \<open>
  \<^verbatim>\<open>PopulatePerfectLoopNestsUnder\<close>: the vector of nests is threaded through; the result
  is the returned flag and the vector. The loop over the sub-loops accumulates the flag
  with \<^verbatim>\<open>&=\<close>, so every sub-loop is visited.
\<close>

fun PopulatePerfectLoopNestsUnder :: "Loop \<Rightarrow> Loop list list \<Rightarrow> fault + bool \<times> Loop list list"
  and populateSubLoops :: "Loop list \<Rightarrow> bool \<Rightarrow> Loop list list \<Rightarrow> fault + bool \<times> Loop list list"
where
  "PopulatePerfectLoopNestsUnder (Loop i h la ex bs subs civ) PerfectLoopNests =
     (let L = Loop i h la ex bs subs civ in
      if subs = [] then
        (if \<not> IsRotatedLoop L \<and> hasSimpleHeaderLatch L
         then Inr (True, PerfectLoopNests @ [[L]])
         else Inr (False, PerfectLoopNests))
      else
        (case populateSubLoops subs True PerfectLoopNests of
           Inl f \<Rightarrow> Inl f
         | Inr (PerfectSubnest, nests) \<Rightarrow>
             if PerfectSubnest \<and> length subs = 1 \<and> \<not> IsRotatedLoop L \<and> hasSimpleHeaderLatch L
             then (case BlocksPerfectlyNestedUnder L of
                     Inl f \<Rightarrow> Inl f
                   | Inr nested \<Rightarrow>
                       if nested
                       then (if nests = [] then Inl OutOfBounds
                             else Inr (True, butlast nests @ [L # last nests]))
                       else Inr (False, nests))
             else Inr (False, nests)))"
| "populateSubLoops [] PerfectSubnest PerfectLoopNests = Inr (PerfectSubnest, PerfectLoopNests)"
| "populateSubLoops (c # cs) PerfectSubnest PerfectLoopNests =
     (case PopulatePerfectLoopNestsUnder c PerfectLoopNests of
        Inl f \<Rightarrow> Inl f
      | Inr (b, nests) \<Rightarrow> populateSubLoops cs (PerfectSubnest \<and> b) nests)"

text \<open>
  \<^verbatim>\<open>IsPerfectNest\<close>: the loop from the innermost loop outwards, \<open>Subloop\<close> being the loop
  seen before. Loops are compared by identity.
\<close>

fun perfectChain :: "Loop \<Rightarrow> Loop list \<Rightarrow> fault + bool" where
  "perfectChain Subloop [] = Inr True"
| "perfectChain Subloop (L # outer) =
     (if length (getSubLoops L) \<noteq> 1 then Inr False
      else if loopId (hd (getSubLoops L)) \<noteq> loopId Subloop then Inr False
      else if IsRotatedLoop L then Inr False
      else if \<not> hasSimpleHeaderLatch L then Inr False
      else (case BlocksPerfectlyNestedUnder L of
              Inl f \<Rightarrow> Inl f
            | Inr nested \<Rightarrow> if \<not> nested then Inr False else perfectChain L outer))"

text \<open>Reading \<^verbatim>\<open>*LN.rbegin()\<close> of an empty nest is outside the vector.\<close>

definition IsPerfectNest :: "Loop list \<Rightarrow> fault + bool" where
  "IsPerfectNest LN =
     (case rev LN of
        [] \<Rightarrow> Inl OutOfBounds
      | Innermost # outer \<Rightarrow>
          if getSubLoops Innermost \<noteq> [] \<or> IsRotatedLoop Innermost
             \<or> \<not> hasSimpleHeaderLatch Innermost
          then Inr False
          else perfectChain Innermost outer)"

section \<open>Reference groups\<close>

definition operands :: "val \<Rightarrow> val list" where
  "operands v = (case v of Instruction _ _ ops \<Rightarrow> ops | _ \<Rightarrow> [])"

definition getNumOperands :: "val \<Rightarrow> nat" where
  "getNumOperands v = length (operands v)"

definition getOperand :: "val \<Rightarrow> nat \<Rightarrow> val" where
  "getOperand v i = operands v ! i"

definition isGEP :: "val \<Rightarrow> bool" where
  "isGEP v = (case v of Instruction _ GetElementPtr _ \<Rightarrow> True | _ \<Rightarrow> False)"

text \<open>
  The inner loop of \<^verbatim>\<open>CreateReferenceGroups\<close> over the reference groups, for a candidate
  whose last operand is symbolically representable; the result is \<^verbatim>\<open>UniqueGEP\<close>. The
  source dereferences the result of \<^verbatim>\<open>dyn_cast<SCEVConstant>\<close> without a test; the
  comparison is between \<^verbatim>\<open>int64_t\<close> and \<^verbatim>\<open>unsigned\<close>, hence signed, at 64 bits.
\<close>

fun scanReferenceGroups :: "ScalarEvolution \<Rightarrow> 32 word \<Rightarrow> val \<Rightarrow> val list \<Rightarrow> fault + bool" where
  "scanReferenceGroups se lineSize GEP [] = Inr True"
| "scanReferenceGroups se lineSize GEP (RG # rest) =
     (let NumOps = getNumOperands GEP; RGNumOps = getNumOperands RG in
      if RGNumOps \<noteq> NumOps then scanReferenceGroups se lineSize GEP rest
      else if \<not> list_all (\<lambda>i. getOperand GEP i = getOperand RG i) [0..<NumOps - 1]
        then scanReferenceGroups se lineSize GEP rest
      else if \<not> isSCEVable se (getOperand RG (RGNumOps - 1))
        then scanReferenceGroups se lineSize GEP rest
      else (case getMinusSCEVConstant se (getOperand GEP (NumOps - 1))
                   (getOperand RG (RGNumOps - 1)) of
              None \<Rightarrow> Inl NullDereference
            | Some DiffSCEV \<Rightarrow>
                if sint DiffSCEV < uint lineSize then Inr False
                else scanReferenceGroups se lineSize GEP rest))"

text \<open>
  The body of the outer loop for one address computation. Every such instruction has its
  pointer operand; \<^verbatim>\<open>getOperand(NumOps - 1)\<close> of one without operands is out of range.
\<close>

definition addReference :: "ScalarEvolution \<Rightarrow> 32 word \<Rightarrow> val list \<Rightarrow> val \<Rightarrow> fault + val list" where
  "addReference se lineSize rgs GEP =
     (let NumOps = getNumOperands GEP in
      if NumOps = 0 then Inl OutOfBounds
      else if isSCEVable se (getOperand GEP (NumOps - 1)) then
        (case scanReferenceGroups se lineSize GEP rgs of
           Inl f \<Rightarrow> Inl f
         | Inr UniqueGEP \<Rightarrow> Inr (if UniqueGEP then rgs @ [GEP] else rgs))
      else Inr (rgs @ [GEP]))"

fun groupInstructions :: "ScalarEvolution \<Rightarrow> 32 word \<Rightarrow> val list \<Rightarrow> val list \<Rightarrow> fault + val list" where
  "groupInstructions se lineSize rgs [] = Inr rgs"
| "groupInstructions se lineSize rgs (i # rest) =
     (if isGEP i then
        (case addReference se lineSize rgs i of
           Inl f \<Rightarrow> Inl f
         | Inr rgs' \<Rightarrow> groupInstructions se lineSize rgs' rest)
      else groupInstructions se lineSize rgs rest)"

definition CreateReferenceGroups :: "ScalarEvolution \<Rightarrow> LoopCost \<Rightarrow> BasicBlock \<Rightarrow> fault + LoopCost" where
  "CreateReferenceGroups se lc bb =
     (case groupInstructions se (LineSize lc) (ReferenceGroups lc) (insts bb) of
        Inl f \<Rightarrow> Inl f
      | Inr rgs \<Rightarrow> Inr (lc\<lparr>ReferenceGroups := rgs\<rparr>))"

section \<open>Loop costs\<close>

fun ASTMatch :: "val \<Rightarrow> val \<Rightarrow> bool"
  and ASTMatchOperands :: "val list \<Rightarrow> val \<Rightarrow> bool"
where
  "ASTMatch (Instruction i opc ops) P =
     (if Instruction i opc ops = P then True else ASTMatchOperands ops P)"
| "ASTMatch Operand P = (Operand = P)"
| "ASTMatchOperands [] P = False"
| "ASTMatchOperands (v # vs) P = (if ASTMatch v P then True else ASTMatchOperands vs P)"

fun innerSingleBB :: "Loop \<Rightarrow> BasicBlock option \<Rightarrow> BasicBlock list \<Rightarrow> BasicBlock option" where
  "innerSingleBB L BB [] = BB"
| "innerSingleBB L BB (bb # rest) =
     (if isHeaderOrLatch L bb then innerSingleBB L BB rest
      else if isEmptyBlock bb then innerSingleBB L BB rest
      else if BB \<noteq> None then None
      else innerSingleBB L (Some bb) rest)"

definition getInnerSingleBB :: "Loop \<Rightarrow> BasicBlock option" where
  "getInnerSingleBB L = innerSingleBB L None (getBlocks L)"

definition tripCountAsDouble :: "32 word \<Rightarrow> rat" where
  "tripCountAsDouble tc = of_int (uint tc)"

text \<open>The loop over \<^verbatim>\<open>LoopTripCounts\<close>: the pair (ThisLoopPenalty, OtherLoopPenalties).\<close>

definition loopPenalties :: "nat \<Rightarrow> (nat \<times> 32 word) list \<Rightarrow> rat \<times> rat" where
  "loopPenalties l tcs =
     foldl (\<lambda>(ThisLoopPenalty, OtherLoopPenalties) ltc.
              if fst ltc = l then (tripCountAsDouble (snd ltc), OtherLoopPenalties)
              else (ThisLoopPenalty, OtherLoopPenalties * tripCountAsDouble (snd ltc)))
           (1, 1) tcs"

text \<open>The loop over the index positions \<open>ni = 1 .. getNumIndices()\<close> of one reference.\<close>

definition refPenalty :: "Order \<Rightarrow> 32 word \<Rightarrow> rat \<Rightarrow> val \<Rightarrow> val \<Rightarrow> rat" where
  "refPenalty order lineSize ThisLoopPenalty P GEP =
     (let ne = getNumOperands GEP - 1 in
      foldl (\<lambda>ThisRefPenalty ni.
               if ASTMatch (getOperand GEP ni) P then
                 (if (order = ROWMAJOR \<and> ni = ne) \<or> (order = COLUMNMAJOR \<and> ni = 2)
                  then ThisLoopPenalty / tripCountAsDouble lineSize
                  else ThisLoopPenalty)
               else ThisRefPenalty)
            1 [1..<Suc ne])"

definition thisLoopCost :: "LoopCost \<Rightarrow> Loop \<Rightarrow> val \<Rightarrow> fault + rat" where
  "thisLoopCost lc L P =
     (case loopPenalties (loopId L) (LoopTripCounts lc) of
        (ThisLoopPenalty, OtherLoopPenalties) \<Rightarrow>
          if ThisLoopPenalty > 0 \<and> OtherLoopPenalties > 0
          then Inr (foldl (\<lambda>ThisLoopCost GEP.
                             ThisLoopCost
                             + refPenalty (AccessOrder lc) (LineSize lc) ThisLoopPenalty P GEP
                               * OtherLoopPenalties)
                          0 (ReferenceGroups lc))
          else Inl AssertionFailure)"

fun costLoops :: "LoopCost \<Rightarrow> Loop list \<Rightarrow> fault + LoopCost" where
  "costLoops lc [] = Inr lc"
| "costLoops lc (L # rest) =
     (case getCanonicalInductionVariable L of
        None \<Rightarrow> costLoops lc rest
      | Some P \<Rightarrow>
          (case thisLoopCost lc L P of
             Inl f \<Rightarrow> Inl f
           | Inr c \<Rightarrow> costLoops (lc\<lparr>LoopCosts := (LoopCosts lc)(loopId L \<mapsto> c)\<rparr>) rest))"

definition initLoopCosts :: "LoopCost \<Rightarrow> Loop list \<Rightarrow> LoopCost" where
  "initLoopCosts lc LN = lc\<lparr>LoopCosts := foldl (\<lambda>m L. m(loopId L \<mapsto> - 1)) (LoopCosts lc) LN\<rparr>"

definition calculateLoopCosts :: "ScalarEvolution \<Rightarrow> LoopCost \<Rightarrow> Loop list \<Rightarrow> fault + LoopCost" where
  "calculateLoopCosts se lc LN =
     (let lc1 = initLoopCosts lc LN in
      case IsPerfectNest LN of
        Inl f \<Rightarrow> Inl f
      | Inr perfect \<Rightarrow>
          if \<not> perfect then Inr lc1
          else (case getInnerSingleBB (last LN) of
                  None \<Rightarrow> Inr lc1
                | Some innermostBB \<Rightarrow>
                    (case CreateReferenceGroups se lc1 innermostBB of
                       Inl f \<Rightarrow> Inl f
                     | Inr lc2 \<Rightarrow>
                         (case setTripCounts se lc2 LN of
                            Inl f \<Rightarrow> Inl f
                          | Inr lc3 \<Rightarrow> costLoops lc3 LN))))"

definition getLoopCostOf :: "LoopCost \<Rightarrow> Loop \<Rightarrow> rat" where
  "getLoopCostOf lc L = (case LoopCosts lc (loopId L) of None \<Rightarrow> - 1 | Some c \<Rightarrow> c)"

text \<open>
  \<^verbatim>\<open>LoopCostAnalysis::runOnFunction\<close>: one \<^verbatim>\<open>LoopCost\<close> object for the function, the nests
  found under every top-level loop, then the costs of each nest in turn on that object.
\<close>

fun populateAll :: "Loop list \<Rightarrow> Loop list list \<Rightarrow> fault + Loop list list" where
  "populateAll [] PerfectLoopNests = Inr PerfectLoopNests"
| "populateAll (L # rest) PerfectLoopNests =
     (case PopulatePerfectLoopNestsUnder L PerfectLoopNests of
        Inl f \<Rightarrow> Inl f
      | Inr (b, nests) \<Rightarrow> populateAll rest nests)"

fun calculateAll :: "ScalarEvolution \<Rightarrow> LoopCost \<Rightarrow> Loop list list \<Rightarrow> fault + LoopCost" where
  "calculateAll se lc [] = Inr lc"
| "calculateAll se lc (PN # rest) =
     (case calculateLoopCosts se lc PN of
        Inl f \<Rightarrow> Inl f
      | Inr lc' \<Rightarrow> calculateAll se lc' rest)"

definition runOnFunction :: "ScalarEvolution \<Rightarrow> Loop list \<Rightarrow> fault + LoopCost" where
  "runOnFunction se LI =
     (case populateAll LI [] of
        Inl f \<Rightarrow> Inl f
      | Inr PerfectLoopNests \<Rightarrow> calculateAll se newLoopCost PerfectLoopNests)"

section \<open>Observations of a run\<close>

definition queriedCost :: "fault + LoopCost \<Rightarrow> Loop \<Rightarrow> fault + rat" where
  "queriedCost r L = (case r of Inl f \<Rightarrow> Inl f | Inr lc \<Rightarrow> Inr (getLoopCostOf lc L))"

definition tripCountsOf :: "fault + LoopCost \<Rightarrow> fault + (nat \<times> 32 word) list" where
  "tripCountsOf r = (case r of Inl f \<Rightarrow> Inl f | Inr lc \<Rightarrow> Inr (LoopTripCounts lc))"

definition referenceGroupsOf :: "fault + LoopCost \<Rightarrow> fault + val list" where
  "referenceGroupsOf r = (case r of Inl f \<Rightarrow> Inl f | Inr lc \<Rightarrow> Inr (ReferenceGroups lc))"

section \<open>Concrete programs\<close>

text \<open>
  Modelled from the spec: the symbolic evaluator is the host's and is not among the
  sources; the spec gives its capabilities ("is this value symbolically representable",
  "compute constant trip count for a loop", "compute the constant integer difference of
  two symbolic expressions if constant"). The functions above take it as a parameter. For
  the concrete programs below it is instantiated for operands that are a symbol plus a
  constant: two of them have a constant difference exactly when their symbols agree. The
  trip counts are a table by loop.
\<close>

fun affineOf :: "val \<Rightarrow> val option \<times> int" where
  "affineOf (ConstantInt c) = (None, c)"
| "affineOf (Instruction i Add [a, ConstantInt c]) = (fst (affineOf a), snd (affineOf a) + c)"
| "affineOf v = (Some v, 0)"

definition affineSE :: "(nat \<Rightarrow> 32 word) \<Rightarrow> ScalarEvolution" where
  "affineSE tc =
     \<lparr>isSCEVable = (\<lambda>v. True),
      getMinusSCEVConstant =
        (\<lambda>a b. if fst (affineOf a) = fst (affineOf b)
                then Some (word_of_int (snd (affineOf a) - snd (affineOf b)))
                else None),
      getSmallConstantTripCount = (\<lambda>L. tc (loopId L))\<rparr>"

definition br :: "nat \<Rightarrow> nat \<Rightarrow> val" where
  "br i target = Instruction i Br [BasicBlockRef target]"

definition condbr :: "nat \<Rightarrow> val \<Rightarrow> nat \<Rightarrow> nat \<Rightarrow> val" where
  "condbr i c t f = Instruction i Br [c, BasicBlockRef f, BasicBlockRef t]"

definition gep :: "nat \<Rightarrow> val list \<Rightarrow> val" where
  "gep i ops = Instruction i GetElementPtr ops"

text \<open>The block shapes of a \<^verbatim>\<open>for\<close> loop after loop-simplify and indvars.\<close>

definition forCond :: "nat \<Rightarrow> nat \<Rightarrow> nat \<Rightarrow> nat \<Rightarrow> BasicBlock" where
  "forCond b phi body exit =
     \<lparr>blockId = b,
      insts = [PHINode phi,
               Instruction (100 + b) ICmp [PHINode phi, ConstantInt 5000],
               condbr (200 + b) (Instruction (100 + b) ICmp [PHINode phi, ConstantInt 5000])
                 body exit]\<rparr>"

definition jump :: "nat \<Rightarrow> nat \<Rightarrow> BasicBlock" where
  "jump b target = \<lparr>blockId = b, insts = [br (200 + b) target]\<rparr>"

definition forInc :: "nat \<Rightarrow> nat \<Rightarrow> nat \<Rightarrow> BasicBlock" where
  "forInc b phi target =
     \<lparr>blockId = b,
      insts = [Instruction (100 + b) Add [PHINode phi, ConstantInt 1], br (200 + b) target]\<rparr>"

subsection \<open>The matrix multiplication of the test\<close>

text \<open>
  \<^verbatim>\<open>matmul-perfect-loopCost.ll\<close>: blocks 1 to 11 are \<^verbatim>\<open>for.cond\<close>, \<^verbatim>\<open>for.body\<close>,
  \<^verbatim>\<open>for.cond1\<close>, \<^verbatim>\<open>for.body3\<close>, \<^verbatim>\<open>for.cond4\<close>, \<^verbatim>\<open>for.body6\<close>, \<^verbatim>\<open>for.inc\<close>, \<^verbatim>\<open>for.end\<close>,
  \<^verbatim>\<open>for.inc21\<close>, \<^verbatim>\<open>for.end23\<close>, \<^verbatim>\<open>for.inc24\<close>; phi nodes 1, 2, 3 are \<^verbatim>\<open>indvars.iv6\<close>,
  \<^verbatim>\<open>indvars.iv3\<close>, \<^verbatim>\<open>indvars.iv\<close>; globals 1, 2, 3 are \<^verbatim>\<open>c\<close>, \<^verbatim>\<open>a\<close>, \<^verbatim>\<open>b\<close>.
\<close>

definition mm_arrayidx8 :: val where
  "mm_arrayidx8 = gep 20 [GlobalVariable 1, ConstantInt 0, PHINode 1, PHINode 2]"

definition mm_arrayidx12 :: val where
  "mm_arrayidx12 = gep 22 [GlobalVariable 2, ConstantInt 0, PHINode 1, PHINode 3]"

definition mm_arrayidx16 :: val where
  "mm_arrayidx16 = gep 24 [GlobalVariable 3, ConstantInt 0, PHINode 3, PHINode 2]"

definition mm_arrayidx20 :: val where
  "mm_arrayidx20 = gep 28 [GlobalVariable 1, ConstantInt 0, PHINode 1, PHINode 2]"

definition mm_add :: val where
  "mm_add = Instruction 27 Add
     [Instruction 21 Load [mm_arrayidx8],
      Instruction 26 Mul [Instruction 23 Load [mm_arrayidx12],
                          Instruction 25 Load [mm_arrayidx16]]]"

definition mm_body6 :: BasicBlock where
  "mm_body6 =
     \<lparr>blockId = 6,
      insts = [mm_arrayidx8, Instruction 21 Load [mm_arrayidx8],
               mm_arrayidx12, Instruction 23 Load [mm_arrayidx12],
               mm_arrayidx16, Instruction 25 Load [mm_arrayidx16],
               Instruction 26 Mul [Instruction 23 Load [mm_arrayidx12],
                                   Instruction 25 Load [mm_arrayidx16]],
               mm_add, mm_arrayidx20,
               Instruction 29 Store [mm_add, mm_arrayidx20],
               br 30 7]\<rparr>"

definition mm_inner_blocks :: "BasicBlock list" where
  "mm_inner_blocks = [forCond 5 3 6 8, mm_body6, forInc 7 3 5]"

definition mm_middle_blocks :: "BasicBlock list" where
  "mm_middle_blocks = [forCond 3 2 4 10, jump 4 5] @ mm_inner_blocks @ [jump 8 9, forInc 9 2 3]"

definition mm_outer_blocks :: "BasicBlock list" where
  "mm_outer_blocks = [forCond 1 1 2 12, jump 2 3] @ mm_middle_blocks @ [jump 10 11, forInc 11 1 1]"

definition mm_inner :: Loop where
  "mm_inner = Loop 3 5 (Some 7) (Some 5) mm_inner_blocks [] (Some (PHINode 3))"

definition mm_middle :: Loop where
  "mm_middle = Loop 2 3 (Some 9) (Some 3) mm_middle_blocks [mm_inner] (Some (PHINode 2))"

definition mm_outer :: Loop where
  "mm_outer = Loop 1 1 (Some 11) (Some 1) mm_outer_blocks [mm_middle] (Some (PHINode 1))"

text \<open>The same nest when no canonical induction variable is found for the middle loop.\<close>

definition mm_middle_noiv :: Loop where
  "mm_middle_noiv = Loop 2 3 (Some 9) (Some 3) mm_middle_blocks [mm_inner] None"

definition mm_outer_noiv :: Loop where
  "mm_outer_noiv = Loop 1 1 (Some 11) (Some 1) mm_outer_blocks [mm_middle_noiv] (Some (PHINode 1))"

subsection \<open>Two loops side by side\<close>

text \<open>
  \<^verbatim>\<open>for (i...) a[i] = 0; for (j...) b[j] = 0;\<close> Two top-level loops, each a nest of its
  own: loop 1 over blocks 1 to 3 with phi node 1, loop 2 over blocks 4 to 6 with phi node 2.
\<close>

definition storeBody :: "nat \<Rightarrow> val \<Rightarrow> nat \<Rightarrow> BasicBlock" where
  "storeBody b address target =
     \<lparr>blockId = b,
      insts = [address, Instruction (100 + b) Store [ConstantInt 0, address],
               br (200 + b) target]\<rparr>"

definition sideA :: Loop where
  "sideA = Loop 1 1 (Some 3) (Some 1)
     [forCond 1 1 2 4, storeBody 2 (gep 10 [GlobalVariable 1, ConstantInt 0, PHINode 1]) 3,
      forInc 3 1 1]
     [] (Some (PHINode 1))"

definition sideB :: Loop where
  "sideB = Loop 2 4 (Some 6) (Some 4)
     [forCond 4 2 5 7, storeBody 5 (gep 11 [GlobalVariable 2, ConstantInt 0, PHINode 2]) 6,
      forInc 6 2 4]
     [] (Some (PHINode 2))"

definition sideTripCounts :: "nat \<Rightarrow> 32 word" where
  "sideTripCounts l = (if l = 1 then 11 else 21)"

subsection \<open>Other single loops\<close>

text \<open>\<^verbatim>\<open>for (i...) a[i] = a[j];\<close> with \<open>j\<close> the function's argument.\<close>

definition copyBody :: BasicBlock where
  "copyBody =
     \<lparr>blockId = 2,
      insts = [gep 10 [GlobalVariable 1, ConstantInt 0, Argument 1],
               Instruction 11 Load [gep 10 [GlobalVariable 1, ConstantInt 0, Argument 1]],
               gep 12 [GlobalVariable 1, ConstantInt 0, PHINode 1],
               Instruction 13 Store
                 [Instruction 11 Load [gep 10 [GlobalVariable 1, ConstantInt 0, Argument 1]],
                  gep 12 [GlobalVariable 1, ConstantInt 0, PHINode 1]],
               br 14 3]\<rparr>"

definition copyLoop :: Loop where
  "copyLoop = Loop 1 1 (Some 3) (Some 1) [forCond 1 1 2 4, copyBody, forInc 3 1 1] []
     (Some (PHINode 1))"

text \<open>
  The address computations of \<^verbatim>\<open>a[i]\<close>, \<^verbatim>\<open>a[i + 3]\<close>, \<^verbatim>\<open>a[i + 4]\<close>, \<^verbatim>\<open>a[i + 6]\<close> and
  \<^verbatim>\<open>a[i - 100]\<close>.
\<close>

definition ref_i :: val where
  "ref_i = gep 10 [GlobalVariable 1, ConstantInt 0, PHINode 1]"

definition ref_i_plus_3 :: val where
  "ref_i_plus_3 = gep 12 [GlobalVariable 1, ConstantInt 0,
                          Instruction 11 Add [PHINode 1, ConstantInt 3]]"

definition ref_i_plus_4 :: val where
  "ref_i_plus_4 = gep 14 [GlobalVariable 1, ConstantInt 0,
                          Instruction 13 Add [PHINode 1, ConstantInt 4]]"

definition ref_i_plus_6 :: val where
  "ref_i_plus_6 = gep 18 [GlobalVariable 1, ConstantInt 0,
                          Instruction 17 Add [PHINode 1, ConstantInt 6]]"

definition ref_i_minus_100 :: val where
  "ref_i_minus_100 = gep 16 [GlobalVariable 1, ConstantInt 0,
                             Instruction 15 Add [PHINode 1, ConstantInt (- 100)]]"

text \<open>An un-rotated loop without sub-loops whose header stores to memory before its test.\<close>

definition storingHeader :: BasicBlock where
  "storingHeader =
     \<lparr>blockId = 1,
      insts = [PHINode 1,
               Instruction 90 Store [ConstantInt 1, GlobalVariable 9],
               Instruction 101 ICmp [PHINode 1, ConstantInt 5000],
               condbr 201 (Instruction 101 ICmp [PHINode 1, ConstantInt 5000]) 2 4]\<rparr>"

definition storingHeaderLoop :: Loop where
  "storingHeaderLoop = Loop 1 1 (Some 3) (Some 1)
     [storingHeader, storeBody 2 (gep 10 [GlobalVariable 1, ConstantInt 0, PHINode 1]) 3,
      forInc 3 1 1]
     [] (Some (PHINode 1))"

text \<open>A loop whose body is two blocks with work in each.\<close>

definition twoBodyLoop :: Loop where
  "twoBodyLoop = Loop 1 1 (Some 4) (Some 1)
     [forCond 1 1 2 5, storeBody 2 (gep 10 [GlobalVariable 1, ConstantInt 0, PHINode 1]) 3,
      storeBody 3 (gep 11 [GlobalVariable 2, ConstantInt 0, PHINode 1]) 4, forInc 4 1 1]
     [] (Some (PHINode 1))"

text \<open>
  Following the spec's words: the header and the latch "contain only loop-control
  bookkeeping (no side-effecting work)", read as: each of their instructions is the
  induction phi, its increment, the exit comparison or a branch.
\<close>

definition isLoopControl :: "val \<Rightarrow> bool" where
  "isLoopControl v =
     (case v of
        PHINode _ \<Rightarrow> True
      | Instruction _ opc _ \<Rightarrow> opc = Br \<or> opc = ICmp \<or> opc = Add
      | _ \<Rightarrow> False)"

definition spec_controlOnlyHeaderLatch :: "Loop \<Rightarrow> bool" where
  "spec_controlOnlyHeaderLatch L =
     list_all (\<lambda>bb. list_all isLoopControl (insts bb)) (filter (isHeaderOrLatch L) (getBlocks L))"

section \<open>Properties of the trip count normalisation\<close>

lemma length_resetTripCount [simp]: "length (resetTripCount tcs li v) = length tcs"
  by (simp add: resetTripCount_def)

lemma length_normalizeStep [simp]: "length (normalizeStep tcs li) = length tcs"
  by (simp add: normalizeStep_def)

lemma nth_normalizeStep_other: "j \<noteq> li \<Longrightarrow> normalizeStep tcs li ! j = tcs ! j"
  by (simp add: normalizeStep_def resetTripCount_def)

lemma nth_normalizeStep_same:
  "li < length tcs \<Longrightarrow>
   normalizeStep tcs li ! li =
     (fst (tcs ! li),
      if snd (tcs ! li) \<noteq> 0 then snd (tcs ! li) else orStatic (neighbourValue tcs li))"
  by (simp add: normalizeStep_def resetTripCount_def)

lemma normalizeTripCounts_done:
  "length tcs \<le> li \<Longrightarrow> normalizeTripCounts li tcs = Inr tcs"
  by (subst normalizeTripCounts.simps) simp

lemma normalizeTripCounts_past_end:
  "length tcs = 1 \<Longrightarrow> snd (tcs ! 0) = 0 \<Longrightarrow> normalizeTripCounts 0 tcs = Inl OutOfBounds"
  by (subst normalizeTripCounts.simps) simp

lemma normalizeTripCounts_unfold:
  assumes lt: "li < length tcs" and ok: "0 < li \<or> 2 \<le> length tcs \<or> snd (tcs ! li) \<noteq> 0"
  shows "normalizeTripCounts li tcs = normalizeTripCounts (Suc li) (normalizeStep tcs li)"
proof (cases "snd (tcs ! li) = 0")
  case False
  with lt show ?thesis
    by (subst normalizeTripCounts.simps) (simp add: normalizeStep_def)
next
  case zero: True
  show ?thesis
  proof (cases "li = 0")
    case True
    with zero ok have "Suc 0 < length tcs" by auto
    moreover from lt have "tcs \<noteq> []" by auto
    ultimately show ?thesis using True zero
      by (subst normalizeTripCounts.simps) (simp add: normalizeStep_def neighbourValue_def)
  next
    case False
    with zero lt show ?thesis
      by (subst normalizeTripCounts.simps) (simp add: normalizeStep_def neighbourValue_def)
  qed
qed

lemma normalizeTripCounts_cases:
  assumes "normalizeTripCounts li tcs = Inr res"
  shows "(length tcs \<le> li \<and> res = tcs)
         \<or> (li < length tcs \<and> normalizeTripCounts (Suc li) (normalizeStep tcs li) = Inr res)"
proof (cases "li < length tcs")
  case False
  with assms show ?thesis by (simp add: normalizeTripCounts_done)
next
  case True
  show ?thesis
  proof (cases "0 < li \<or> 2 \<le> length tcs \<or> snd (tcs ! li) \<noteq> 0")
    case True
    with \<open>li < length tcs\<close> assms show ?thesis by (simp add: normalizeTripCounts_unfold)
  next
    case False
    with \<open>li < length tcs\<close> have "length tcs = 1" "li = 0" by linarith+
    moreover from False \<open>li = 0\<close> have "snd (tcs ! 0) = 0" by simp
    ultimately have "length tcs = 1" "li = 0" "snd (tcs ! 0) = 0" by simp_all
    with assms show ?thesis by (simp add: normalizeTripCounts_past_end)
  qed
qed

lemma normalizeTripCounts_length:
  "normalizeTripCounts li tcs = Inr res \<Longrightarrow> length res = length tcs"
proof (induction "length tcs - li" arbitrary: li tcs)
  case 0
  then show ?case using normalizeTripCounts_cases [of li tcs res] by auto
next
  case (Suc n)
  from normalizeTripCounts_cases [OF Suc.prems] show ?case
  proof
    assume "length tcs \<le> li \<and> res = tcs" then show ?thesis by simp
  next
    assume a: "li < length tcs \<and> normalizeTripCounts (Suc li) (normalizeStep tcs li) = Inr res"
    have "n = length (normalizeStep tcs li) - Suc li" using Suc.hyps(2) by simp
    from Suc.hyps(1) [OF this] a show ?thesis by simp
  qed
qed

lemma normalizeTripCounts_prefix:
  "normalizeTripCounts li tcs = Inr res \<Longrightarrow> j < li \<Longrightarrow> res ! j = tcs ! j"
proof (induction "length tcs - li" arbitrary: li tcs)
  case 0
  then show ?case using normalizeTripCounts_cases [of li tcs res] by auto
next
  case (Suc n)
  from normalizeTripCounts_cases [OF Suc.prems(1)] show ?case
  proof
    assume "length tcs \<le> li \<and> res = tcs" then show ?thesis by simp
  next
    assume a: "li < length tcs \<and> normalizeTripCounts (Suc li) (normalizeStep tcs li) = Inr res"
    have "n = length (normalizeStep tcs li) - Suc li" using Suc.hyps(2) by simp
    from Suc.hyps(1) [OF this] a Suc.prems(2)
    have "res ! j = normalizeStep tcs li ! j" by simp
    with Suc.prems(2) show ?thesis by (simp add: nth_normalizeStep_other)
  qed
qed

lemma normalizeTripCounts_total:
  "0 < li \<or> 2 \<le> length tcs \<Longrightarrow> \<exists>res. normalizeTripCounts li tcs = Inr res"
proof (induction "length tcs - li" arbitrary: li tcs)
  case 0
  then show ?case by (simp add: normalizeTripCounts_done)
next
  case (Suc n)
  then have lt: "li < length tcs" by simp
  have "n = length (normalizeStep tcs li) - Suc li" using Suc.hyps(2) by simp
  from Suc.hyps(1) [OF this] Suc.prems
  obtain res where "normalizeTripCounts (Suc li) (normalizeStep tcs li) = Inr res" by auto
  moreover have "normalizeTripCounts li tcs = normalizeTripCounts (Suc li) (normalizeStep tcs li)"
    using lt Suc.prems by (intro normalizeTripCounts_unfold) auto
  ultimately show ?case by simp
qed

text \<open>The entry at position \<open>j\<close> when the loop has finished.\<close>

lemma normalizeTripCounts_entry:
  "normalizeTripCounts li tcs = Inr res \<Longrightarrow> li \<le> j \<Longrightarrow> j < length tcs \<Longrightarrow>
   res ! j =
     (fst (tcs ! j),
      if snd (tcs ! j) \<noteq> 0 then snd (tcs ! j)
      else orStatic
             (if j = 0 then snd (tcs ! Suc j)
              else if j = length tcs - 1 then snd (res ! (j - 1))
              else (snd (res ! (j - 1)) + snd (tcs ! Suc j)) div 2))"
proof (induction "length tcs - li" arbitrary: li tcs)
  case 0
  then show ?case by simp
next
  case (Suc n)
  from normalizeTripCounts_cases [OF Suc.prems(1)] Suc.prems
  have run: "normalizeTripCounts (Suc li) (normalizeStep tcs li) = Inr res" and lt: "li < length tcs"
    by auto
  have n: "n = length (normalizeStep tcs li) - Suc li" using Suc.hyps(2) by simp
  show ?case
  proof (cases "j = li")
    case True
    have same: "res ! li = normalizeStep tcs li ! li"
      using normalizeTripCounts_prefix [OF run, of li] by simp
    have prev: "0 < li \<Longrightarrow> res ! (li - 1) = tcs ! (li - 1)"
      using normalizeTripCounts_prefix [OF run, of "li - 1"]
      by (simp add: nth_normalizeStep_other)
    have val: "res ! li =
        (fst (tcs ! li),
         if snd (tcs ! li) \<noteq> 0 then snd (tcs ! li) else orStatic (neighbourValue tcs li))"
      using same lt by (simp add: nth_normalizeStep_same)
    have nb: "neighbourValue tcs li =
        (if li = 0 then snd (tcs ! Suc li)
         else if li = length tcs - 1 then snd (res ! (li - 1))
         else (snd (res ! (li - 1)) + snd (tcs ! Suc li)) div 2)"
    proof (cases "li = 0")
      case True
      then show ?thesis by (simp add: neighbourValue_def)
    next
      case False
      then have eq: "tcs ! (li - 1) = res ! (li - 1)" using prev by simp
      show ?thesis by (simp only: neighbourValue_def eq)
    qed
    show ?thesis unfolding True val nb ..
  next
    case False
    with Suc.prems have j: "Suc li \<le> j" "j < length (normalizeStep tcs li)" by simp_all
    from Suc.hyps(1) [OF n run j] False j show ?thesis
      by (simp add: nth_normalizeStep_other)
  qed
qed


section \<open>Properties of the scan over the reference groups\<close>

lemma scanReferenceGroups_append:
  "scanReferenceGroups se ls g (pre @ rest) =
     (case scanReferenceGroups se ls g pre of
        Inl f \<Rightarrow> Inl f
      | Inr u \<Rightarrow> if u then scanReferenceGroups se ls g rest else Inr False)"
  by (induction pre) (simp_all add: Let_def split: option.splits)

lemma scanReferenceGroups_head:
  assumes "getNumOperands g = getNumOperands rg"
    and "\<forall>i<getNumOperands g - 1. getOperand g i = getOperand rg i"
    and "isSCEVable se (getOperand rg (getNumOperands rg - 1))"
    and "getMinusSCEVConstant se (getOperand g (getNumOperands g - 1))
           (getOperand rg (getNumOperands rg - 1)) = Some d"
  shows "scanReferenceGroups se ls g (rg # rest) =
           (if sint d < uint ls then Inr False else scanReferenceGroups se ls g rest)"
  using assms by (simp add: Let_def list_all_iff)


section \<open>Properties of the cost table\<close>

lemma foldl_unknown_costs:
  "foldl (\<lambda>m L. m(loopId L \<mapsto> - 1)) m LN k
     = (if k \<in> loopId ` set LN then Some (- 1 :: rat) else m k)"
  by (induction LN arbitrary: m) auto

lemma LoopCosts_initLoopCosts:
  "LoopCosts (initLoopCosts lc LN) k
     = (if k \<in> loopId ` set LN then Some (- 1) else LoopCosts lc k)"
  by (simp add: initLoopCosts_def foldl_unknown_costs)

lemma CreateReferenceGroups_fields:
  "CreateReferenceGroups se lc bb = Inr lc' \<Longrightarrow>
   LoopCosts lc' = LoopCosts lc \<and> LoopTripCounts lc' = LoopTripCounts lc
   \<and> AccessOrder lc' = AccessOrder lc \<and> LineSize lc' = LineSize lc"
  by (auto simp: CreateReferenceGroups_def split: sum.splits)

lemma setTripCounts_fields:
  "setTripCounts se lc LN = Inr lc' \<Longrightarrow>
   LoopCosts lc' = LoopCosts lc \<and> ReferenceGroups lc' = ReferenceGroups lc
   \<and> AccessOrder lc' = AccessOrder lc \<and> LineSize lc' = LineSize lc"
  by (auto simp: setTripCounts_def split: sum.splits)

lemma thisLoopCost_LoopCosts_update [simp]:
  "thisLoopCost (lc\<lparr>LoopCosts := m\<rparr>) L P = thisLoopCost lc L P"
  by (simp add: thisLoopCost_def split: prod.splits)

lemma costLoops_other:
  "costLoops lc Ls = Inr lc' \<Longrightarrow> k \<notin> loopId ` set Ls \<Longrightarrow> LoopCosts lc' k = LoopCosts lc k"
proof (induction Ls arbitrary: lc)
  case Nil
  then show ?case by simp
next
  case (Cons L Ls)
  show ?case
  proof (cases "getCanonicalInductionVariable L")
    case None
    with Cons show ?thesis by simp
  next
    case (Some P)
    with Cons.prems obtain c where c: "thisLoopCost lc L P = Inr c"
      and run: "costLoops (lc\<lparr>LoopCosts := (LoopCosts lc)(loopId L \<mapsto> c)\<rparr>) Ls = Inr lc'"
      by (auto split: sum.splits)
    from Cons.IH [OF run] Cons.prems(2) show ?thesis by simp
  qed
qed

lemma calculateLoopCosts_unknown:
  "IsPerfectNest PN = Inr False \<or> (IsPerfectNest PN = Inr True \<and> getInnerSingleBB (last PN) = None)
   \<Longrightarrow> calculateLoopCosts se lc PN = Inr (initLoopCosts lc PN)"
  by (auto simp: calculateLoopCosts_def Let_def)

lemma calculateLoopCosts_other:
  assumes "calculateLoopCosts se lc PN = Inr lc'" and "k \<notin> loopId ` set PN"
  shows "LoopCosts lc' k = LoopCosts lc k"
proof -
  have init: "LoopCosts (initLoopCosts lc PN) k = LoopCosts lc k"
    using assms(2) by (simp add: LoopCosts_initLoopCosts)
  show ?thesis
  proof (cases "IsPerfectNest PN = Inr True \<and> getInnerSingleBB (last PN) \<noteq> None")
    case False
    with assms(1) have "lc' = initLoopCosts lc PN"
      by (auto simp: calculateLoopCosts_def Let_def split: sum.splits if_splits option.splits)
    with init show ?thesis by simp
  next
    case True
    then obtain bb where bb: "getInnerSingleBB (last PN) = Some bb" by auto
    with True assms(1) obtain lc2 lc3 where
      g: "CreateReferenceGroups se (initLoopCosts lc PN) bb = Inr lc2"
      and t: "setTripCounts se lc2 PN = Inr lc3"
      and c: "costLoops lc3 PN = Inr lc'"
      by (auto simp: calculateLoopCosts_def Let_def split: sum.splits)
    from costLoops_other [OF c assms(2)] setTripCounts_fields [OF t]
      CreateReferenceGroups_fields [OF g] init
    show ?thesis by simp
  qed
qed

lemma calculateAll_unknown:
  assumes "calculateAll se lc nests = Inr lc'"
    and "getLoopCostOf lc L = - 1"
    and "\<forall>PN\<in>set nests. loopId L \<in> loopId ` set PN \<longrightarrow>
           IsPerfectNest PN = Inr False \<or> getInnerSingleBB (last PN) = None"
  shows "getLoopCostOf lc' L = - 1"
  using assms
proof (induction nests arbitrary: lc)
  case Nil
  then show ?case by simp
next
  case (Cons PN nests)
  from Cons.prems(1) obtain lc1 where one: "calculateLoopCosts se lc PN = Inr lc1"
    and rest: "calculateAll se lc1 nests = Inr lc'"
    by (auto split: sum.splits)
  have "getLoopCostOf lc1 L = - 1"
  proof (cases "loopId L \<in> loopId ` set PN")
    case False
    from calculateLoopCosts_other [OF one False] Cons.prems(2) show ?thesis
      by (simp add: getLoopCostOf_def)
  next
    case True
    with Cons.prems(3)
    have "IsPerfectNest PN = Inr False \<or> getInnerSingleBB (last PN) = None" by simp
    with one have "lc1 = initLoopCosts lc PN"
      by (auto simp: calculateLoopCosts_def Let_def split: sum.splits if_splits)
    with True show ?thesis by (simp add: getLoopCostOf_def LoopCosts_initLoopCosts)
  qed
  with Cons.IH [OF rest] Cons.prems(3) show ?case by simp
qed

text \<open>After the normalisation no trip count is 0, so the penalties are positive.\<close>

lemma orStatic_nonzero: "orStatic v \<noteq> 0"
  by (simp add: orStatic_def STATIC_TRIP_COUNT_def)

lemma normalizeTripCounts_nonzero:
  assumes "normalizeTripCounts 0 tcs = Inr res"
  shows "\<forall>e\<in>set res. snd e \<noteq> 0"
proof
  fix e assume "e \<in> set res"
  then obtain j where j: "j < length res" "e = res ! j" by (auto simp: in_set_conv_nth)
  with normalizeTripCounts_length [OF assms] have "j < length tcs" by simp
  from normalizeTripCounts_entry [OF assms _ this] j(2) show "snd e \<noteq> 0"
    by (simp add: orStatic_nonzero)
qed

lemma tripCountAsDouble_pos: "w \<noteq> 0 \<Longrightarrow> 0 < tripCountAsDouble w"
proof -
  assume "w \<noteq> 0"
  then have "uint w \<noteq> 0" by (simp add: uint_0_iff)
  moreover have "0 \<le> uint w" by simp
  ultimately have "0 < uint w" by linarith
  then show ?thesis unfolding tripCountAsDouble_def by (simp only: of_int_0_less_iff)
qed

lemma tripCountAsDouble_nonneg: "0 \<le> tripCountAsDouble w"
proof -
  have "0 \<le> uint w" by simp
  then show ?thesis unfolding tripCountAsDouble_def by (simp only: of_int_0_le_iff)
qed

lemma foldl_penalties_pos:
  "\<forall>e\<in>set tcs. snd e \<noteq> 0 \<Longrightarrow> 0 < a \<Longrightarrow> 0 < b \<Longrightarrow>
   0 < fst (foldl (\<lambda>(ThisLoopPenalty, OtherLoopPenalties) ltc.
              if fst ltc = l then (tripCountAsDouble (snd ltc), OtherLoopPenalties)
              else (ThisLoopPenalty, OtherLoopPenalties * tripCountAsDouble (snd ltc)))
           (a, b) tcs)
   \<and> 0 < snd (foldl (\<lambda>(ThisLoopPenalty, OtherLoopPenalties) ltc.
              if fst ltc = l then (tripCountAsDouble (snd ltc), OtherLoopPenalties)
              else (ThisLoopPenalty, OtherLoopPenalties * tripCountAsDouble (snd ltc)))
           (a, b) tcs)"
proof (induction tcs arbitrary: a b)
  case Nil
  then show ?case by simp
next
  case (Cons e tcs)
  then have pos: "0 < tripCountAsDouble (snd e)" by (simp add: tripCountAsDouble_pos)
  show ?case
  proof (cases "fst e = l")
    case True
    with Cons.IH [of "tripCountAsDouble (snd e)" b] Cons.prems pos show ?thesis by simp
  next
    case False
    with Cons.IH [of a "b * tripCountAsDouble (snd e)"] Cons.prems pos show ?thesis by simp
  qed
qed

lemma loopPenalties_pos:
  "\<forall>e\<in>set tcs. snd e \<noteq> 0 \<Longrightarrow>
   0 < fst (loopPenalties l tcs) \<and> 0 < snd (loopPenalties l tcs)"
  unfolding loopPenalties_def by (rule foldl_penalties_pos) simp_all

lemma foldl_refPenalty_nonneg:
  "0 \<le> t \<Longrightarrow> 0 \<le> a \<Longrightarrow>
   0 \<le> foldl (\<lambda>ThisRefPenalty ni.
               if ASTMatch (getOperand GEP ni) P then
                 (if (order = ROWMAJOR \<and> ni = ne) \<or> (order = COLUMNMAJOR \<and> ni = 2)
                  then t / tripCountAsDouble lineSize
                  else t)
               else ThisRefPenalty) a ns"
proof (induction ns arbitrary: a)
  case Nil
  then show ?case by simp
next
  case (Cons n ns)
  have "0 \<le> t / tripCountAsDouble lineSize"
    using Cons.prems(1) tripCountAsDouble_nonneg [of lineSize] by simp
  with Cons show ?case by simp
qed

lemma refPenalty_nonneg: "0 \<le> t \<Longrightarrow> 0 \<le> refPenalty order lineSize t P GEP"
  unfolding refPenalty_def Let_def by (rule foldl_refPenalty_nonneg) simp_all

lemma foldl_cost_nonneg:
  "0 \<le> t \<Longrightarrow> 0 \<le> other \<Longrightarrow> 0 \<le> a \<Longrightarrow>
   0 \<le> foldl (\<lambda>ThisLoopCost GEP.
                  ThisLoopCost + refPenalty order lineSize t P GEP * other) a rgs"
proof (induction rgs arbitrary: a)
  case Nil
  then show ?case by simp
next
  case (Cons g rgs)
  have "0 \<le> refPenalty order lineSize t P g * other"
    using Cons.prems refPenalty_nonneg [of t order lineSize P g] by simp
  with Cons show ?case by simp
qed

lemma thisLoopCost_total:
  assumes "\<forall>e\<in>set (LoopTripCounts lc). snd e \<noteq> 0"
  shows "\<exists>c. thisLoopCost lc L P = Inr c \<and> 0 \<le> c"
proof -
  obtain t other where p: "loopPenalties (loopId L) (LoopTripCounts lc) = (t, other)"
    by (cases "loopPenalties (loopId L) (LoopTripCounts lc)")
  with loopPenalties_pos [OF assms, of "loopId L"] have pos: "0 < t" "0 < other" by simp_all
  then have "0 \<le> foldl (\<lambda>ThisLoopCost GEP.
                  ThisLoopCost + refPenalty (AccessOrder lc) (LineSize lc) t P GEP * other)
                0 (ReferenceGroups lc)"
    by (intro foldl_cost_nonneg) simp_all
  with p pos show ?thesis by (simp add: thisLoopCost_def)
qed


lemma costLoops_fields:
  "costLoops lc Ls = Inr lc' \<Longrightarrow> LoopTripCounts lc' = LoopTripCounts lc"
proof (induction Ls arbitrary: lc)
  case Nil
  then show ?case by simp
next
  case (Cons L Ls)
  show ?case
  proof (cases "getCanonicalInductionVariable L")
    case None
    with Cons show ?thesis by simp
  next
    case (Some P)
    with Cons.prems obtain c where
      run: "costLoops (lc\<lparr>LoopCosts := (LoopCosts lc)(loopId L \<mapsto> c)\<rparr>) Ls = Inr lc'"
      by (auto split: sum.splits)
    from Cons.IH [OF run] show ?thesis by simp
  qed
qed

lemma costLoops_result:
  assumes "\<forall>e\<in>set (LoopTripCounts lc). snd e \<noteq> 0" and "distinct (map loopId Ls)"
  shows "\<exists>lc'. costLoops lc Ls = Inr lc'
           \<and> (\<forall>L\<in>set Ls.
                 case getCanonicalInductionVariable L of
                   None \<Rightarrow> LoopCosts lc' (loopId L) = LoopCosts lc (loopId L)
                 | Some P \<Rightarrow> \<exists>c. thisLoopCost lc L P = Inr c \<and> 0 \<le> c
                              \<and> LoopCosts lc' (loopId L) = Some c)"
  using assms
proof (induction Ls arbitrary: lc)
  case Nil
  then show ?case by simp
next
  case (Cons L Ls)
  from Cons.prems(2) have notin: "loopId L \<notin> loopId ` set Ls" and dist: "distinct (map loopId Ls)"
    by auto
  show ?case
  proof (cases "getCanonicalInductionVariable L")
    case None
    from Cons.IH [OF Cons.prems(1) dist] obtain lc' where
      run: "costLoops lc Ls = Inr lc'"
      and rest: "\<forall>L\<in>set Ls.
                 case getCanonicalInductionVariable L of
                   None \<Rightarrow> LoopCosts lc' (loopId L) = LoopCosts lc (loopId L)
                 | Some P \<Rightarrow> \<exists>c. thisLoopCost lc L P = Inr c \<and> 0 \<le> c
                              \<and> LoopCosts lc' (loopId L) = Some c"
      by blast
    have "LoopCosts lc' (loopId L) = LoopCosts lc (loopId L)"
      by (rule costLoops_other [OF run notin])
    with None run rest show ?thesis by simp
  next
    case (Some P)
    from thisLoopCost_total [OF Cons.prems(1), of L P] obtain c where
      c: "thisLoopCost lc L P = Inr c" "0 \<le> c" by blast
    let ?lc = "lc\<lparr>LoopCosts := (LoopCosts lc)(loopId L \<mapsto> c)\<rparr>"
    have tc: "\<forall>e\<in>set (LoopTripCounts ?lc). snd e \<noteq> 0" using Cons.prems(1) by simp
    from Cons.IH [OF tc dist] obtain lc' where
      run: "costLoops ?lc Ls = Inr lc'"
      and rest: "\<forall>L'\<in>set Ls.
                 case getCanonicalInductionVariable L' of
                   None \<Rightarrow> LoopCosts lc' (loopId L') = LoopCosts ?lc (loopId L')
                 | Some P' \<Rightarrow> \<exists>c. thisLoopCost ?lc L' P' = Inr c \<and> 0 \<le> c
                              \<and> LoopCosts lc' (loopId L') = Some c"
      by blast
    have here: "LoopCosts lc' (loopId L) = Some c"
      using costLoops_other [OF run notin] by simp
    have "\<forall>L'\<in>set Ls.
                 case getCanonicalInductionVariable L' of
                   None \<Rightarrow> LoopCosts lc' (loopId L') = LoopCosts lc (loopId L')
                 | Some P' \<Rightarrow> \<exists>c. thisLoopCost lc L' P' = Inr c \<and> 0 \<le> c
                              \<and> LoopCosts lc' (loopId L') = Some c"
    proof
      fix L' assume in': "L' \<in> set Ls"
      then have "loopId L' \<in> loopId ` set Ls" by (rule imageI)
      with notin have ne: "loopId L' \<noteq> loopId L" by metis
      from rest in' have
        "case getCanonicalInductionVariable L' of
                   None \<Rightarrow> LoopCosts lc' (loopId L') = LoopCosts ?lc (loopId L')
                 | Some P' \<Rightarrow> \<exists>c. thisLoopCost ?lc L' P' = Inr c \<and> 0 \<le> c
                              \<and> LoopCosts lc' (loopId L') = Some c"
        by blast
      with ne show
        "case getCanonicalInductionVariable L' of
                   None \<Rightarrow> LoopCosts lc' (loopId L') = LoopCosts lc (loopId L')
                 | Some P' \<Rightarrow> \<exists>c. thisLoopCost lc L' P' = Inr c \<and> 0 \<le> c
                              \<and> LoopCosts lc' (loopId L') = Some c"
        by (cases "getCanonicalInductionVariable L'") simp_all
    qed
    with Some c run here show ?thesis by simp
  qed
qed

section \<open>Properties of the nest detection\<close>

text \<open>
  What the base case of \<^verbatim>\<open>PopulatePerfectLoopNestsUnder\<close> does for every loop without
  sub-loops: the nest of that loop alone is appended exactly when the loop is not rotated.
\<close>

lemma childless_loop_emitted_iff_not_rotated:
  "getSubLoops L = [] \<Longrightarrow>
   PopulatePerfectLoopNestsUnder L PerfectLoopNests
     = (if IsRotatedLoop L then Inr (False, PerfectLoopNests)
        else Inr (True, PerfectLoopNests @ [[L]]))"
  by (cases L) (simp add: hasSimpleHeaderLatch_def)

section \<open>Evaluations of the concrete programs\<close>

lemma matmul_nests: "populateAll [mm_outer] [] = Inr [[mm_outer, mm_middle, mm_inner]]"
  by code_simp

lemma matmul_trip_counts:
  "tripCountsOf (runOnFunction (affineSE (\<lambda>l. 5001)) [mm_outer])
     = Inr [(1, 5001), (2, 5001), (3, 5001)]"
  by code_simp

lemma matmul_cost_inner:
  "queriedCost (runOnFunction (affineSE (\<lambda>l. 5001)) [mm_outer]) mm_inner
     = Inr (625475115009 / 4)"
  by code_simp

lemma matmul_cost_middle:
  "queriedCost (runOnFunction (affineSE (\<lambda>l. 5001)) [mm_outer]) mm_middle
     = Inr (125125035003 / 2)"
  by code_simp

lemma matmul_cost_outer:
  "queriedCost (runOnFunction (affineSE (\<lambda>l. 5001)) [mm_outer]) mm_outer
     = Inr 250175040003"
  by code_simp

section \<open>Claims\<close>

text \<open>
  C1 (nest independence). The claim: the costs recorded for the loops of a nest equal the
  costs the nest would receive if it were the only nest of the run. The source keeps
  \<^verbatim>\<open>ReferenceGroups\<close> and \<^verbatim>\<open>LoopTripCounts\<close> as fields of the one \<^verbatim>\<open>LoopCost\<close> object of
  the function and only ever appends to them. For the two loops side by side, the second
  nest is costed with the first loop's trip count in its table and the first loop's
  reference among its groups: its cost is 275/4 in the run over both nests and 21/4 when
  it is the only nest.
\<close>

theorem C1_second_nest_depends_on_first:
  "tripCountsOf (runOnFunction (affineSE sideTripCounts) [sideA, sideB])
     = Inr [(1, 11), (2, 21)]
   \<and> queriedCost (runOnFunction (affineSE sideTripCounts) [sideA, sideB]) sideB = Inr (275 / 4)
   \<and> tripCountsOf (runOnFunction (affineSE sideTripCounts) [sideB]) = Inr [(2, 21)]
   \<and> queriedCost (runOnFunction (affineSE sideTripCounts) [sideB]) sideB = Inr (21 / 4)"
  by code_simp

text \<open>
  C2 (trip count fallback). The claim: in a nest of three loops whose trip counts are all
  unknown, every loop gets 1000. The loop of \<^verbatim>\<open>setTripCounts\<close> rewrites the vector in place
  from the first entry on: the first entry reads the second (0) and falls back to 1000,
  the second takes the average of the 1000 just written and the third's 0, the third
  copies the second.
\<close>

theorem C2_all_zero_nest_counterexample:
  "tripCountsOf (setTripCounts (affineSE (\<lambda>l. 0)) newLoopCost [mm_outer, mm_middle, mm_inner])
     = Inr [(1, 1000), (2, 500), (3, 500)]
   \<and> tripCountsOf (setTripCounts (affineSE (\<lambda>l. 0)) newLoopCost [mm_outer, mm_middle, mm_inner])
     \<noteq> Inr [(1, 1000), (2, 1000), (3, 1000)]"
  by code_simp


text \<open>
  C2 as amended: costed on an empty table, such a nest gets 1000 for the outermost loop
  and 500 for the middle and the innermost loop. More generally, on a table of at least
  two entries the loop finishes, and an entry recorded as 0 becomes: at the first position
  the recorded count of its successor; at the last position the count of its predecessor
  as it stands after the predecessor's own normalisation; in between the 32-bit sum of
  these two, halved; and 1000 whenever that value is 0. Other entries are kept.
\<close>

theorem C2_trip_count_fallback:
  "(LoopTripCounts lc = [] \<and> getSmallConstantTripCount se L1 = 0
      \<and> getSmallConstantTripCount se L2 = 0 \<and> getSmallConstantTripCount se L3 = 0
      \<longrightarrow> tripCountsOf (setTripCounts se lc [L1, L2, L3])
            = Inr [(loopId L1, 1000), (loopId L2, 500), (loopId L3, 500)])
   \<and> (2 \<le> length tcs \<longrightarrow>
        (\<exists>res. normalizeTripCounts 0 tcs = Inr res \<and> length res = length tcs
           \<and> (\<forall>j<length tcs.
                 res ! j =
                   (fst (tcs ! j),
                    if snd (tcs ! j) \<noteq> 0 then snd (tcs ! j)
                    else orStatic
                           (if j = 0 then snd (tcs ! Suc j)
                            else if j = length tcs - 1 then snd (res ! (j - 1))
                            else (snd (res ! (j - 1)) + snd (tcs ! Suc j)) div 2)))))"
proof (intro conjI impI)
  assume a: "LoopTripCounts lc = [] \<and> getSmallConstantTripCount se L1 = 0
      \<and> getSmallConstantTripCount se L2 = 0 \<and> getSmallConstantTripCount se L3 = 0"
  have "normalizeTripCounts 0 [(loopId L1, 0), (loopId L2, 0), (loopId L3, 0)]
          = Inr [(loopId L1, 1000), (loopId L2, 500), (loopId L3, 500)]"
    by (simp add: normalizeTripCounts.simps resetTripCount_def orStatic_def STATIC_TRIP_COUNT_def)
  with a show "tripCountsOf (setTripCounts se lc [L1, L2, L3])
            = Inr [(loopId L1, 1000), (loopId L2, 500), (loopId L3, 500)]"
    by (simp add: setTripCounts_def tripCountsOf_def)
next
  assume len: "2 \<le> length tcs"
  then obtain res where res: "normalizeTripCounts 0 tcs = Inr res"
    using normalizeTripCounts_total [of 0 tcs] by auto
  have "length res = length tcs" by (rule normalizeTripCounts_length [OF res])
  moreover have "\<forall>j<length tcs.
       res ! j =
         (fst (tcs ! j),
          if snd (tcs ! j) \<noteq> 0 then snd (tcs ! j)
          else orStatic
                 (if j = 0 then snd (tcs ! Suc j)
                  else if j = length tcs - 1 then snd (res ! (j - 1))
                  else (snd (res ! (j - 1)) + snd (tcs ! Suc j)) div 2))"
    using normalizeTripCounts_entry [OF res] by simp
  ultimately show "\<exists>res. normalizeTripCounts 0 tcs = Inr res \<and> length res = length tcs
           \<and> (\<forall>j<length tcs.
                 res ! j =
                   (fst (tcs ! j),
                    if snd (tcs ! j) \<noteq> 0 then snd (tcs ! j)
                    else orStatic
                           (if j = 0 then snd (tcs ! Suc j)
                            else if j = length tcs - 1 then snd (res ! (j - 1))
                            else (snd (res ! (j - 1)) + snd (tcs ! Suc j)) div 2)))"
    using res by blast
qed


theorem C2_trip_count_fallback_witness:
  "LoopTripCounts newLoopCost = []
   \<and> getSmallConstantTripCount (affineSE (\<lambda>l. 0)) mm_outer = 0
   \<and> tripCountsOf (setTripCounts (affineSE (\<lambda>l. 0)) newLoopCost [mm_outer, mm_middle, mm_inner])
       = Inr [(loopId mm_outer, 1000), (loopId mm_middle, 500), (loopId mm_inner, 500)]
   \<and> normalizeTripCounts 0 [(1, 5), (2, 0), (3, 8), (4, 0)] = Inr [(1, 5), (2, 6), (3, 8), (4, 8)]"
proof -
  have h: "LoopTripCounts newLoopCost = []
      \<and> getSmallConstantTripCount (affineSE (\<lambda>l. 0)) mm_outer = 0
      \<and> getSmallConstantTripCount (affineSE (\<lambda>l. 0)) mm_middle = 0
      \<and> getSmallConstantTripCount (affineSE (\<lambda>l. 0)) mm_inner = 0"
    by (simp add: newLoopCost_def affineSE_def)
  have n: "normalizeTripCounts 0 [(1, 5), (2, 0), (3, 8), (4, 0)] = Inr [(1, 5), (2, 6), (3, 8), (4, 8)]"
    by code_simp
  from C2_trip_count_fallback [of newLoopCost "affineSE (\<lambda>l. 0)" mm_outer mm_middle mm_inner
                                 "[(1, 5), (2, 0), (3, 8), (4, 0)]"] h n
  show ?thesis by blast
qed

text \<open>
  C3 (reference clustering rule). The claim: of every pair of address computations of the
  block with equal operand counts, identical leading operands and symbolically
  representable last operands, the second joins the first's group when the constant
  difference of their last operands is less than the line size, and a reference whose
  last operand differs from the representative's by the line size or more starts a new
  group. At line size 4 it fails twice. The source compares the candidate with the
  representative of a group only, and compares the signed difference, candidate minus
  representative: \<^verbatim>\<open>a[i]\<close> after \<^verbatim>\<open>a[i + 4]\<close> differs from it by the line size, the
  difference is -4, and it joins; \<^verbatim>\<open>a[i + 6]\<close> is 3 from \<^verbatim>\<open>a[i + 3]\<close>, which sits in the
  group of \<^verbatim>\<open>a[i]\<close>, and it starts a group of its own, being 6 from \<^verbatim>\<open>a[i]\<close>.
\<close>

theorem C3_pairs_counterexample:
  "getMinusSCEVConstant (affineSE (\<lambda>l. 5001))
       (getOperand ref_i (getNumOperands ref_i - 1))
       (getOperand ref_i_plus_4 (getNumOperands ref_i_plus_4 - 1)) = Some (- 4)
   \<and> groupInstructions (affineSE (\<lambda>l. 5001)) 4 [] [ref_i_plus_4, ref_i] = Inr [ref_i_plus_4]
   \<and> getMinusSCEVConstant (affineSE (\<lambda>l. 5001))
       (getOperand ref_i_plus_6 (getNumOperands ref_i_plus_6 - 1))
       (getOperand ref_i_plus_3 (getNumOperands ref_i_plus_3 - 1)) = Some 3
   \<and> groupInstructions (affineSE (\<lambda>l. 5001)) 4 [] [ref_i, ref_i_plus_3, ref_i_plus_6]
       = Inr [ref_i, ref_i_plus_6]"
  by code_simp

text \<open>
  C3 as amended. Let \<open>g1\<close> and \<open>g2\<close> be address computations with equal operand counts,
  identical operands but the last, and symbolically representable last operands whose
  difference, last of \<open>g2\<close> minus last of \<open>g1\<close>, is the constant \<open>d\<close>, read as a signed
  number. As the only two of a block grouped on an empty table, \<open>g2\<close> joins the group of
  \<open>g1\<close> when \<open>d\<close> is less than the line size and starts a group of its own otherwise.
  In any table where \<open>g1\<close> is a representative and the groups before it pass \<open>g2\<close> on,
  \<open>g2\<close> joins when \<open>d\<close> is less than the line size (the table is unchanged); when \<open>d\<close>
  is the line size or more and the groups after \<open>g1\<close> pass it on too, \<open>g2\<close> is appended
  as a new group.
\<close>

theorem C3_reference_clustering:
  assumes "isGEP g1" and "isGEP g2"
    and "0 < getNumOperands g1" and "getNumOperands g2 = getNumOperands g1"
    and "\<forall>i<getNumOperands g2 - 1. getOperand g2 i = getOperand g1 i"
    and "isSCEVable se (getOperand g1 (getNumOperands g1 - 1))"
    and "isSCEVable se (getOperand g2 (getNumOperands g2 - 1))"
    and "getMinusSCEVConstant se (getOperand g2 (getNumOperands g2 - 1))
           (getOperand g1 (getNumOperands g1 - 1)) = Some d"
  shows "groupInstructions se lineSize [] [g1, g2]
           = Inr (if sint d < uint lineSize then [g1] else [g1, g2])
       \<and> (scanReferenceGroups se lineSize g2 pre = Inr True \<and> sint d < uint lineSize
            \<longrightarrow> addReference se lineSize (pre @ g1 # post) g2 = Inr (pre @ g1 # post))
       \<and> (scanReferenceGroups se lineSize g2 pre = Inr True \<and> \<not> sint d < uint lineSize
            \<and> scanReferenceGroups se lineSize g2 post = Inr True
            \<longrightarrow> addReference se lineSize (pre @ g1 # post) g2 = Inr (pre @ g1 # post @ [g2]))"
proof -
  have head: "scanReferenceGroups se lineSize g2 (g1 # rest) =
      (if sint d < uint lineSize then Inr False else scanReferenceGroups se lineSize g2 rest)"
    for rest
    using assms by (intro scanReferenceGroups_head) simp_all
  have first: "addReference se lineSize [] g1 = Inr [g1]"
    using assms by (simp add: addReference_def Let_def)
  have step: "scanReferenceGroups se lineSize g2 pre = Inr True \<Longrightarrow>
      addReference se lineSize (pre @ g1 # post) g2 =
        (if sint d < uint lineSize then Inr (pre @ g1 # post)
         else case scanReferenceGroups se lineSize g2 post of
                Inl f \<Rightarrow> Inl f
              | Inr u \<Rightarrow> Inr (if u then pre @ g1 # post @ [g2] else pre @ g1 # post))"
    for pre post
    using assms
    by (simp add: addReference_def Let_def scanReferenceGroups_append head
             del: scanReferenceGroups.simps split: sum.splits)
  have "groupInstructions se lineSize [] [g1, g2]
           = Inr (if sint d < uint lineSize then [g1] else [g1, g2])"
    using assms first step [of "[]" "[]"] by simp
  moreover have "scanReferenceGroups se lineSize g2 pre = Inr True \<and> sint d < uint lineSize
            \<longrightarrow> addReference se lineSize (pre @ g1 # post) g2 = Inr (pre @ g1 # post)"
    using step [of pre post] by simp
  moreover have "scanReferenceGroups se lineSize g2 pre = Inr True \<and> \<not> sint d < uint lineSize
            \<and> scanReferenceGroups se lineSize g2 post = Inr True
            \<longrightarrow> addReference se lineSize (pre @ g1 # post) g2 = Inr (pre @ g1 # post @ [g2])"
    using step [of pre post] by simp
  ultimately show ?thesis by blast
qed

theorem C3_reference_clustering_witness:
  "groupInstructions (affineSE (\<lambda>l. 5001)) 4 [] [ref_i, ref_i_plus_3] = Inr [ref_i]
   \<and> groupInstructions (affineSE (\<lambda>l. 5001)) 4 [] [ref_i, ref_i_plus_4] = Inr [ref_i, ref_i_plus_4]
   \<and> addReference (affineSE (\<lambda>l. 5001)) 4 [mm_arrayidx8, ref_i] ref_i_plus_4
       = Inr [mm_arrayidx8, ref_i, ref_i_plus_4]"
proof -
  let ?se = "affineSE (\<lambda>l. 5001)"
  have shape3: "isGEP ref_i" "isGEP ref_i_plus_3" "0 < getNumOperands ref_i"
    "getNumOperands ref_i_plus_3 = getNumOperands ref_i"
    "\<forall>i<getNumOperands ref_i_plus_3 - 1. getOperand ref_i_plus_3 i = getOperand ref_i i"
    "isSCEVable ?se (getOperand ref_i (getNumOperands ref_i - 1))"
    "isSCEVable ?se (getOperand ref_i_plus_3 (getNumOperands ref_i_plus_3 - 1))"
    by (simp_all add: ref_i_def ref_i_plus_3_def gep_def isGEP_def getNumOperands_def
          getOperand_def operands_def affineSE_def less_Suc_eq)
  have d3: "getMinusSCEVConstant ?se (getOperand ref_i_plus_3 (getNumOperands ref_i_plus_3 - 1))
      (getOperand ref_i (getNumOperands ref_i - 1)) = Some 3"
    by code_simp
  have shape4: "isGEP ref_i_plus_4"
    "getNumOperands ref_i_plus_4 = getNumOperands ref_i"
    "\<forall>i<getNumOperands ref_i_plus_4 - 1. getOperand ref_i_plus_4 i = getOperand ref_i i"
    "isSCEVable ?se (getOperand ref_i_plus_4 (getNumOperands ref_i_plus_4 - 1))"
    by (simp_all add: ref_i_def ref_i_plus_4_def gep_def isGEP_def getNumOperands_def
          getOperand_def operands_def affineSE_def less_Suc_eq)
  have d4: "getMinusSCEVConstant ?se (getOperand ref_i_plus_4 (getNumOperands ref_i_plus_4 - 1))
      (getOperand ref_i (getNumOperands ref_i - 1)) = Some 4"
    by code_simp
  have pre: "scanReferenceGroups ?se 4 ref_i_plus_4 [mm_arrayidx8] = Inr True"
    by code_simp
  have post: "scanReferenceGroups ?se 4 ref_i_plus_4 [] = Inr True"
    by simp
  from C3_reference_clustering [OF shape3(1,2,3,4,5,6,7) d3, of 4 "[]" "[]"]
  have a: "groupInstructions ?se 4 [] [ref_i, ref_i_plus_3] = Inr [ref_i]" by simp
  from C3_reference_clustering [OF shape3(1) shape4(1) shape3(3) shape4(2,3) shape3(6) shape4(4) d4,
         of 4 "[mm_arrayidx8]" "[]"] pre post
  have b: "groupInstructions ?se 4 [] [ref_i, ref_i_plus_4] = Inr [ref_i, ref_i_plus_4]"
    and c: "addReference ?se 4 [mm_arrayidx8, ref_i] ref_i_plus_4
              = Inr [mm_arrayidx8, ref_i, ref_i_plus_4]"
    by simp_all
  from a b c show ?thesis by simp
qed

text \<open>
  C4 (grouping never faults on a non-constant difference). The claim: a candidate whose
  difference from a representative is not a constant is treated as not matching. In the
  source the result of \<^verbatim>\<open>dyn_cast<SCEVConstant>\<close> is dereferenced with no test. For
  \<^verbatim>\<open>a[i] = a[j]\<close> the two address computations have the same operand count and the same
  leading operands, and the difference of \<open>i\<close> and \<open>j\<close> is no constant: grouping ends in
  the null dereference, and so does the run.
\<close>

theorem C4_non_constant_difference_dereferences_null:
  "referenceGroupsOf (CreateReferenceGroups (affineSE (\<lambda>l. 5001)) newLoopCost copyBody)
     = Inl NullDereference
   \<and> queriedCost (runOnFunction (affineSE (\<lambda>l. 5001)) [copyLoop]) copyLoop
     = Inl NullDereference"
  by code_simp

text \<open>
  C5 (a base nest requires a control-only header and latch). The claim: a loop without
  sub-loops whose header or latch holds side-effecting work is not emitted as a perfect
  nest. The comment in \<^verbatim>\<open>hasSimpleHeaderLatch\<close> gives the same rule ("any other instruction
  is deemed to violate perfect nesting"), and the function is called wherever a nest is
  built or re-checked, but its body returns true for every loop. The loop whose header
  stores to memory has no sub-loops, is not rotated, its header is not control-only, the
  test accepts it, and it is emitted as a nest of size 1.
\<close>

theorem C5_side_effecting_header_is_emitted:
  "getSubLoops storingHeaderLoop = []
   \<and> \<not> IsRotatedLoop storingHeaderLoop
   \<and> \<not> spec_controlOnlyHeaderLatch storingHeaderLoop
   \<and> hasSimpleHeaderLatch storingHeaderLoop
   \<and> PopulatePerfectLoopNestsUnder storingHeaderLoop [] = Inr (True, [[storingHeaderLoop]])"
  by code_simp

text \<open>
  C6 (matrix multiplication end to end). For the nest of the test and trip counts 5001,
  the costs are 625475115009/4 for the innermost loop, 125125035003/2 for the middle loop
  and 250175040003 for the outermost loop; every intermediate value is a multiple of 1/4
  far below \<open>2^53\<close>, so these are the doubles the test prints as 1.563688e+11,
  6.256252e+10 and 2.501750e+11. The claim's ordering fails: the outermost loop has the
  highest cost, not the innermost.
\<close>

theorem C6_innermost_not_highest_counterexample:
  "queriedCost (runOnFunction (affineSE (\<lambda>l. 5001)) [mm_outer]) mm_inner
     = Inr (625475115009 / 4)
   \<and> queriedCost (runOnFunction (affineSE (\<lambda>l. 5001)) [mm_outer]) mm_outer
     = Inr 250175040003
   \<and> (625475115009 / 4 :: rat) < 250175040003"
  using matmul_cost_inner matmul_cost_outer by simp

text \<open>
  C6 as amended: the trip counts are 5001, the costs are those above, each within half a
  unit of the fifth significant digit of the spec's 1.5637e11, 6.2563e10 and 2.5018e11,
  and the order is middle, innermost, outermost.
\<close>

theorem C6_matmul_costs:
  "populateAll [mm_outer] [] = Inr [[mm_outer, mm_middle, mm_inner]]
   \<and> tripCountsOf (runOnFunction (affineSE (\<lambda>l. 5001)) [mm_outer])
       = Inr [(1, 5001), (2, 5001), (3, 5001)]
   \<and> queriedCost (runOnFunction (affineSE (\<lambda>l. 5001)) [mm_outer]) mm_inner
       = Inr (625475115009 / 4)
   \<and> queriedCost (runOnFunction (affineSE (\<lambda>l. 5001)) [mm_outer]) mm_middle
       = Inr (125125035003 / 2)
   \<and> queriedCost (runOnFunction (affineSE (\<lambda>l. 5001)) [mm_outer]) mm_outer
       = Inr 250175040003
   \<and> \<bar>625475115009 / 4 - 156370000000 :: rat\<bar> < 5000000
   \<and> \<bar>125125035003 / 2 - 62563000000 :: rat\<bar> < 500000
   \<and> \<bar>250175040003 - 250180000000 :: rat\<bar> < 5000000
   \<and> (125125035003 / 2 :: rat) < 625475115009 / 4
   \<and> (625475115009 / 4 :: rat) < 250175040003"
  using matmul_nests matmul_trip_counts matmul_cost_inner matmul_cost_middle matmul_cost_outer
  by simp

text \<open>
  C7 (unknown cost). When a nest fails the perfection re-check, or passes it and its
  innermost loop has no single body block, \<^verbatim>\<open>calculateLoopCosts\<close> returns and the queried
  cost of every loop of the nest is -1. After a run of the analysis that returns, a loop
  has the queried cost -1 when every detected nest that holds it fails the re-check or has
  no single innermost body block; this covers the loop that is in no detected nest.
\<close>

theorem C7_unknown_cost:
  "(IsPerfectNest PN = Inr False \<or> (IsPerfectNest PN = Inr True \<and> getInnerSingleBB (last PN) = None)
      \<longrightarrow> (\<exists>lc'. calculateLoopCosts se lc PN = Inr lc' \<and> (\<forall>L\<in>set PN. getLoopCostOf lc' L = - 1)))
   \<and> (populateAll LI [] = Inr nests \<and> runOnFunction se LI = Inr result
        \<and> (\<forall>PN\<in>set nests. loopId L \<in> loopId ` set PN \<longrightarrow>
              IsPerfectNest PN = Inr False \<or> getInnerSingleBB (last PN) = None)
      \<longrightarrow> getLoopCostOf result L = - 1)"
proof (intro conjI impI)
  assume "IsPerfectNest PN = Inr False \<or> (IsPerfectNest PN = Inr True \<and> getInnerSingleBB (last PN) = None)"
  then have "calculateLoopCosts se lc PN = Inr (initLoopCosts lc PN)"
    by (rule calculateLoopCosts_unknown)
  moreover have "\<forall>L\<in>set PN. getLoopCostOf (initLoopCosts lc PN) L = - 1"
    by (simp add: getLoopCostOf_def LoopCosts_initLoopCosts)
  ultimately show "\<exists>lc'. calculateLoopCosts se lc PN = Inr lc' \<and> (\<forall>L\<in>set PN. getLoopCostOf lc' L = - 1)"
    by blast
next
  assume a: "populateAll LI [] = Inr nests \<and> runOnFunction se LI = Inr result
        \<and> (\<forall>PN\<in>set nests. loopId L \<in> loopId ` set PN \<longrightarrow>
              IsPerfectNest PN = Inr False \<or> getInnerSingleBB (last PN) = None)"
  from a have p: "populateAll LI [] = Inr nests" by (rule conjunct1)
  from a have r: "runOnFunction se LI = Inr result" by (rule conjunct2 [THEN conjunct1])
  from a have h: "\<forall>PN\<in>set nests. loopId L \<in> loopId ` set PN \<longrightarrow>
              IsPerfectNest PN = Inr False \<or> getInnerSingleBB (last PN) = None"
    by (rule conjunct2 [THEN conjunct2])
  from p r have run: "calculateAll se newLoopCost nests = Inr result"
    by (simp add: runOnFunction_def)
  have init: "getLoopCostOf newLoopCost L = - 1"
    by (simp add: getLoopCostOf_def newLoopCost_def)
  show "getLoopCostOf result L = - 1"
    by (rule calculateAll_unknown [OF run init h])
qed


theorem C7_unknown_cost_witness:
  "IsPerfectNest [mm_outer, mm_inner] = Inr False
   \<and> queriedCost (calculateLoopCosts (affineSE (\<lambda>l. 5001)) newLoopCost [mm_outer, mm_inner]) mm_inner
       = Inr (- 1)
   \<and> populateAll [twoBodyLoop] [] = Inr [[twoBodyLoop]]
   \<and> getInnerSingleBB twoBodyLoop = None
   \<and> queriedCost (runOnFunction (affineSE (\<lambda>l. 5001)) [twoBodyLoop]) twoBodyLoop = Inr (- 1)
   \<and> queriedCost (runOnFunction (affineSE (\<lambda>l. 5001)) [twoBodyLoop]) mm_middle = Inr (- 1)"
proof -
  let ?se = "affineSE (\<lambda>l. 5001)"
  have imperfect: "IsPerfectNest [mm_outer, mm_inner] = Inr False" by code_simp
  have nests: "populateAll [twoBodyLoop] [] = Inr [[twoBodyLoop]]" by code_simp
  have nobb: "getInnerSingleBB twoBodyLoop = None" by code_simp
  have perfect: "IsPerfectNest [twoBodyLoop] = Inr True" by code_simp
  have other: "loopId mm_middle \<notin> loopId ` set [twoBodyLoop]"
    by (simp add: mm_middle_def twoBodyLoop_def)
  have "calculateLoopCosts ?se newLoopCost [twoBodyLoop]
          = Inr (initLoopCosts newLoopCost [twoBodyLoop])"
    using perfect nobb by (intro calculateLoopCosts_unknown) simp
  with nests have "runOnFunction ?se [twoBodyLoop] = Inr (initLoopCosts newLoopCost [twoBodyLoop])"
    by (simp add: runOnFunction_def)
  then obtain result where run: "runOnFunction ?se [twoBodyLoop] = Inr result" ..
  from C7_unknown_cost [of "[mm_outer, mm_inner]" ?se newLoopCost, THEN conjunct1] imperfect
  have a: "queriedCost (calculateLoopCosts ?se newLoopCost [mm_outer, mm_inner]) mm_inner = Inr (- 1)"
    by (auto simp: queriedCost_def)
  from C7_unknown_cost [of "[]" ?se newLoopCost "[twoBodyLoop]" "[[twoBodyLoop]]" result twoBodyLoop,
         THEN conjunct2] nests run nobb
  have b: "getLoopCostOf result twoBodyLoop = - 1" by simp
  from C7_unknown_cost [of "[]" ?se newLoopCost "[twoBodyLoop]" "[[twoBodyLoop]]" result mm_middle,
         THEN conjunct2] nests run other
  have c: "getLoopCostOf result mm_middle = - 1" by simp
  from imperfect a nests nobb b c run show ?thesis by (simp add: queriedCost_def)
qed

text \<open>
  C8 (a missing induction variable is per loop and not fatal). Let a nest of distinct
  loops pass the perfection re-check and have a single innermost body block, and let the
  grouping and the trip counts for it return. Then \<^verbatim>\<open>calculateLoopCosts\<close> returns, the
  assertion on the penalties holding for every loop; a loop of the nest with no canonical
  induction variable keeps the queried cost -1, and every other loop of the nest gets the
  cost computed for it from the groups and trip counts, which is not negative.
\<close>

theorem C8_missing_induction_variable:
  assumes "distinct (map loopId LN)"
    and "IsPerfectNest LN = Inr True"
    and "getInnerSingleBB (last LN) = Some innermostBB"
    and "CreateReferenceGroups se (initLoopCosts lc LN) innermostBB = Inr lc2"
    and "setTripCounts se lc2 LN = Inr lc3"
  shows "\<exists>lc'. calculateLoopCosts se lc LN = Inr lc'
           \<and> (\<forall>L\<in>set LN.
                 case getCanonicalInductionVariable L of
                   None \<Rightarrow> getLoopCostOf lc' L = - 1
                 | Some P \<Rightarrow> thisLoopCost lc3 L P = Inr (getLoopCostOf lc' L)
                              \<and> 0 \<le> getLoopCostOf lc' L)"
proof -
  from assms(5) obtain res where
    res: "normalizeTripCounts 0
            (LoopTripCounts lc2 @ map (\<lambda>L. (loopId L, getSmallConstantTripCount se L)) LN) = Inr res"
    and lc3: "LoopTripCounts lc3 = res"
    by (auto simp: setTripCounts_def split: sum.splits)
  from normalizeTripCounts_nonzero [OF res] lc3
  have nz: "\<forall>e\<in>set (LoopTripCounts lc3). snd e \<noteq> 0" by simp
  from costLoops_result [OF nz assms(1)] obtain lc' where
    run: "costLoops lc3 LN = Inr lc'"
    and each: "\<forall>L\<in>set LN.
                 case getCanonicalInductionVariable L of
                   None \<Rightarrow> LoopCosts lc' (loopId L) = LoopCosts lc3 (loopId L)
                 | Some P \<Rightarrow> \<exists>c. thisLoopCost lc3 L P = Inr c \<and> 0 \<le> c
                              \<and> LoopCosts lc' (loopId L) = Some c"
    by blast
  have calc: "calculateLoopCosts se lc LN = Inr lc'"
    using assms(2,3,4,5) run by (simp add: calculateLoopCosts_def Let_def)
  have init: "LoopCosts lc3 (loopId L) = Some (- 1)" if "L \<in> set LN" for L
    using setTripCounts_fields [OF assms(5)] CreateReferenceGroups_fields [OF assms(4)] that
    by (simp add: LoopCosts_initLoopCosts)
  have "\<forall>L\<in>set LN.
          case getCanonicalInductionVariable L of
            None \<Rightarrow> getLoopCostOf lc' L = - 1
          | Some P \<Rightarrow> thisLoopCost lc3 L P = Inr (getLoopCostOf lc' L)
                       \<and> 0 \<le> getLoopCostOf lc' L"
  proof
    fix L assume L: "L \<in> set LN"
    from each L have
      "case getCanonicalInductionVariable L of
                   None \<Rightarrow> LoopCosts lc' (loopId L) = LoopCosts lc3 (loopId L)
                 | Some P \<Rightarrow> \<exists>c. thisLoopCost lc3 L P = Inr c \<and> 0 \<le> c
                              \<and> LoopCosts lc' (loopId L) = Some c"
      by blast
    with init [OF L] show
      "case getCanonicalInductionVariable L of
         None \<Rightarrow> getLoopCostOf lc' L = - 1
       | Some P \<Rightarrow> thisLoopCost lc3 L P = Inr (getLoopCostOf lc' L)
                    \<and> 0 \<le> getLoopCostOf lc' L"
      by (cases "getCanonicalInductionVariable L") (auto simp: getLoopCostOf_def)
  qed
  with calc show ?thesis by blast
qed


theorem C8_missing_induction_variable_witness:
  "getCanonicalInductionVariable mm_middle_noiv = None
   \<and> queriedCost (calculateLoopCosts (affineSE (\<lambda>l. 5001)) newLoopCost
                     [mm_outer_noiv, mm_middle_noiv, mm_inner]) mm_middle_noiv = Inr (- 1)
   \<and> queriedCost (calculateLoopCosts (affineSE (\<lambda>l. 5001)) newLoopCost
                     [mm_outer_noiv, mm_middle_noiv, mm_inner]) mm_outer_noiv = Inr 250175040003
   \<and> queriedCost (calculateLoopCosts (affineSE (\<lambda>l. 5001)) newLoopCost
                     [mm_outer_noiv, mm_middle_noiv, mm_inner]) mm_inner = Inr (625475115009 / 4)"
proof -
  let ?se = "affineSE (\<lambda>l. 5001)"
  let ?LN = "[mm_outer_noiv, mm_middle_noiv, mm_inner]"
  let ?lc1 = "initLoopCosts newLoopCost ?LN"
  let ?lc2 = "?lc1\<lparr>ReferenceGroups := [mm_arrayidx8, mm_arrayidx12, mm_arrayidx16]\<rparr>"
  let ?lc3 = "?lc2\<lparr>LoopTripCounts := [(1, 5001), (2, 5001), (3, 5001)]\<rparr>"
  have ids: "loopId mm_outer_noiv = 1" "loopId mm_middle_noiv = 2" "loopId mm_inner = 3"
    by (simp_all add: mm_outer_noiv_def mm_middle_noiv_def mm_inner_def)
  have dist: "distinct (map loopId ?LN)" by (simp add: ids)
  have perfect: "IsPerfectNest ?LN = Inr True" by code_simp
  have bb: "getInnerSingleBB (last ?LN) = Some mm_body6" by code_simp
  have groups: "groupInstructions ?se 4 [] (insts mm_body6)
                  = Inr [mm_arrayidx8, mm_arrayidx12, mm_arrayidx16]"
    by code_simp
  have g: "CreateReferenceGroups ?se ?lc1 mm_body6 = Inr ?lc2"
    by (simp add: CreateReferenceGroups_def initLoopCosts_def newLoopCost_def groups)
  have counts: "normalizeTripCounts 0 [(a, 5001), (b, 5001), (c, 5001)]
                  = Inr [(a, 5001), (b, 5001), (c, 5001)]" for a b c :: nat
    by (simp add: normalizeTripCounts.simps)
  have t: "setTripCounts ?se ?lc2 ?LN = Inr ?lc3"
    by (simp add: setTripCounts_def initLoopCosts_def newLoopCost_def ids affineSE_def counts)
  have noiv: "getCanonicalInductionVariable mm_middle_noiv = None"
    by (simp add: mm_middle_noiv_def)
  from C8_missing_induction_variable [OF dist perfect bb g t] obtain lc' where
    run: "calculateLoopCosts ?se newLoopCost ?LN = Inr lc'"
    and each: "\<forall>L\<in>set ?LN.
                 case getCanonicalInductionVariable L of
                   None \<Rightarrow> getLoopCostOf lc' L = - 1
                 | Some P \<Rightarrow> thisLoopCost ?lc3 L P = Inr (getLoopCostOf lc' L)
                              \<and> 0 \<le> getLoopCostOf lc' L"
    by blast
  from each noiv have middle: "getLoopCostOf lc' mm_middle_noiv = - 1" by simp
  have outer: "queriedCost (calculateLoopCosts ?se newLoopCost ?LN) mm_outer_noiv
                 = Inr 250175040003"
    by code_simp
  have inner: "queriedCost (calculateLoopCosts ?se newLoopCost ?LN) mm_inner
                 = Inr (625475115009 / 4)"
    by code_simp
  from run middle have "queriedCost (calculateLoopCosts ?se newLoopCost ?LN) mm_middle_noiv
                          = Inr (- 1)"
    by (simp add: queriedCost_def)
  with noiv outer inner show ?thesis by simp
qed

text \<open>
  C9 (normalisation is well defined for a nest of one loop). The claim: at a sequence
  boundary only the single available neighbour is read. In the source the test for
  \<^verbatim>\<open>begin()\<close> comes first and reads the next entry; for a nest of one loop with unknown
  trip count, costed on an empty table, there is no next entry and the read is one past
  the end of the vector.
\<close>

theorem C9_single_loop_nest_reads_past_end:
  "tripCountsOf (setTripCounts (affineSE (\<lambda>l. 0)) newLoopCost [sideA]) = Inl OutOfBounds
   \<and> queriedCost (runOnFunction (affineSE (\<lambda>l. 0)) [sideA]) sideA = Inl OutOfBounds"
  by code_simp

text \<open>
  C10 (signed cache line test). When the constant difference, candidate's last operand
  minus representative's, is negative as a signed 64-bit number, whatever its magnitude
  and whatever the line size, a candidate of equal operand count and identical leading
  operands that reaches the representative joins its group: the table is unchanged.
  The witness is \<^verbatim>\<open>a[i - 100]\<close> against \<^verbatim>\<open>a[i]\<close> at line size 4.
\<close>

theorem C10_signed_cache_line_test:
  assumes "0 < getNumOperands g" and "getNumOperands g = getNumOperands rg"
    and "\<forall>i<getNumOperands g - 1. getOperand g i = getOperand rg i"
    and "isSCEVable se (getOperand rg (getNumOperands rg - 1))"
    and "isSCEVable se (getOperand g (getNumOperands g - 1))"
    and "getMinusSCEVConstant se (getOperand g (getNumOperands g - 1))
           (getOperand rg (getNumOperands rg - 1)) = Some d"
    and "sint d < 0"
    and "scanReferenceGroups se lineSize g pre = Inr True"
  shows "addReference se lineSize (pre @ rg # post) g = Inr (pre @ rg # post)"
proof -
  have "0 \<le> uint lineSize" by simp
  with \<open>sint d < 0\<close> have lt: "sint d < uint lineSize" by linarith
  have "scanReferenceGroups se lineSize g (rg # post) = Inr False"
    using assms lt by (subst scanReferenceGroups_head [where d = d]) simp_all
  with assms show ?thesis
    by (simp add: addReference_def Let_def scanReferenceGroups_append
             del: scanReferenceGroups.simps)
qed

theorem C10_signed_cache_line_test_witness:
  "addReference (affineSE (\<lambda>l. 5001)) 4 [mm_arrayidx8, ref_i, ref_i_plus_4] ref_i_minus_100
     = Inr [mm_arrayidx8, ref_i, ref_i_plus_4]"
proof -
  let ?se = "affineSE (\<lambda>l. 5001)"
  have shape: "0 < getNumOperands ref_i_minus_100"
    "getNumOperands ref_i_minus_100 = getNumOperands ref_i"
    "\<forall>i<getNumOperands ref_i_minus_100 - 1. getOperand ref_i_minus_100 i = getOperand ref_i i"
    "isSCEVable ?se (getOperand ref_i (getNumOperands ref_i - 1))"
    "isSCEVable ?se (getOperand ref_i_minus_100 (getNumOperands ref_i_minus_100 - 1))"
    by (simp_all add: ref_i_def ref_i_minus_100_def gep_def isGEP_def getNumOperands_def
          getOperand_def operands_def affineSE_def less_Suc_eq)
  have d: "getMinusSCEVConstant ?se
      (getOperand ref_i_minus_100 (getNumOperands ref_i_minus_100 - 1))
      (getOperand ref_i (getNumOperands ref_i - 1)) = Some (- 100)"
    by code_simp
  have neg: "sint (- 100 :: 64 word) < 0" by simp
  have pre: "scanReferenceGroups ?se 4 ref_i_minus_100 [mm_arrayidx8] = Inr True"
    by code_simp
  from C10_signed_cache_line_test [OF shape d neg pre, of "[ref_i_plus_4]"]
  show ?thesis by simp
qed

end
